theory Spec2Isabelle
  imports Main "HOL-Library.Sublist" "HOL-Library.Multiset"
begin

section \<open>JavaScript strings and the library functions the application calls\<close>

text \<open>
  A JavaScript string is held as the UTF-8 bytes of its (well-formed) text, so a
  \<^typ>\<open>string\<close> literal is the ASCII text it shows and a Japanese literal of the source
  is the list of its bytes. The separator, the URL prefixes and the unreserved URI
  characters are ASCII, and UTF-8 is self-synchronising, so searching and cutting at
  them is the same on bytes as on UTF-16 code units.
\<close>

definition startsWith :: "string \<Rightarrow> string \<Rightarrow> bool" where
  "startsWith s p = prefix p s"

text \<open>\<^verbatim>\<open>s.includes(sep)\<close>: \<open>sep\<close> occurs somewhere in \<open>s\<close>.\<close>

fun includes_str :: "string \<Rightarrow> string \<Rightarrow> bool" where
  "includes_str [] sep = (sep = [])"
| "includes_str (c # cs) sep = (prefix sep (c # cs) \<or> includes_str cs sep)"

text \<open>
  \<^verbatim>\<open>s.split(sep)\<close> for a non-empty separator: the string is scanned from the left; at
  each position where the separator starts, the piece collected so far is closed and the
  scan resumes behind the separator (matches never overlap). \<open>cur\<close> is the piece being
  collected, reversed.
\<close>

function split_from :: "string \<Rightarrow> string \<Rightarrow> string \<Rightarrow> string list" where
  "split_from sep cur s =
     (if sep \<noteq> [] \<and> prefix sep s then rev cur # split_from sep [] (drop (length sep) s)
      else (case s of
              [] \<Rightarrow> [rev cur]
            | c # cs \<Rightarrow> split_from sep (c # cur) cs))"
  by pat_completeness auto
termination
  by (relation "measure (\<lambda>(sep, cur, s). length s)") (auto simp: prefix_def)

declare split_from.simps [simp del]

definition split_str :: "string \<Rightarrow> string \<Rightarrow> string list" where
  "split_str s sep = (if sep = [] then map (\<lambda>c. [c]) s else split_from sep [] s)"

text \<open>\<^verbatim>\<open>parts.join(sep)\<close>.\<close>

fun join_str :: "string list \<Rightarrow> string \<Rightarrow> string" where
  "join_str [] sep = []"
| "join_str [p] sep = p"
| "join_str (p # q # ps) sep = p @ sep @ join_str (q # ps) sep"

text \<open>
  \<^verbatim>\<open>s.trim()\<close> removes leading and trailing white space and line terminators of
  ECMAScript: TAB, LF, VT, FF, CR, SPACE, U+00A0, U+1680, U+2000 to U+200A, U+2028, U+2029,
  U+202F, U+205F, U+3000 and U+FEFF, here in UTF-8.
\<close>

definition js_whitespace :: "string list" where
  "js_whitespace =
     [[CHR 0x09], [CHR 0x0A], [CHR 0x0B], [CHR 0x0C], [CHR 0x0D], [CHR 0x20],
      [CHR 0xC2, CHR 0xA0], [CHR 0xE1, CHR 0x9A, CHR 0x80],
      [CHR 0xE2, CHR 0x80, CHR 0x80], [CHR 0xE2, CHR 0x80, CHR 0x81],
      [CHR 0xE2, CHR 0x80, CHR 0x82], [CHR 0xE2, CHR 0x80, CHR 0x83],
      [CHR 0xE2, CHR 0x80, CHR 0x84], [CHR 0xE2, CHR 0x80, CHR 0x85],
      [CHR 0xE2, CHR 0x80, CHR 0x86], [CHR 0xE2, CHR 0x80, CHR 0x87],
      [CHR 0xE2, CHR 0x80, CHR 0x88], [CHR 0xE2, CHR 0x80, CHR 0x89],
      [CHR 0xE2, CHR 0x80, CHR 0x8A], [CHR 0xE2, CHR 0x80, CHR 0xA8],
      [CHR 0xE2, CHR 0x80, CHR 0xA9], [CHR 0xE2, CHR 0x80, CHR 0xAF],
      [CHR 0xE2, CHR 0x81, CHR 0x9F], [CHR 0xE3, CHR 0x80, CHR 0x80],
      [CHR 0xEF, CHR 0xBB, CHR 0xBF]]"

text \<open>Dropping, from the front, every leading occurrence of one of the sequences \<open>ws\<close>.\<close>

function strip_leading :: "string list \<Rightarrow> string \<Rightarrow> string" where
  "strip_leading ws s =
     (case find (\<lambda>w. w \<noteq> [] \<and> prefix w s) ws of
        None \<Rightarrow> s
      | Some w \<Rightarrow> strip_leading ws (drop (length w) s))"
  by pat_completeness auto
termination
  by (relation "measure (\<lambda>(ws, s). length s)") (auto simp: find_Some_iff prefix_def)

declare strip_leading.simps [simp del]

definition trim :: "string \<Rightarrow> string" where
  "trim s = rev (strip_leading (map rev js_whitespace) (rev (strip_leading js_whitespace s)))"

text \<open>
  \<^verbatim>\<open>encodeURIComponent\<close>: the unreserved characters \<^verbatim>\<open>A-Z a-z 0-9 - _ . ! ~ * ' ( )\<close>
  stay, every other byte of the UTF-8 text becomes \<^verbatim>\<open>%XX\<close> in upper-case hexadecimal.
\<close>

definition uri_unreserved :: "char \<Rightarrow> bool" where
  "uri_unreserved c =
     (c \<in> set (''ABCDEFGHIJKLMNOPQRSTUVWXYZabcdefghijklmnopqrstuvwxyz0123456789-_.!~*()''
               @ [CHR 0x27]))"

definition hex_digit :: "nat \<Rightarrow> char" where
  "hex_digit n = ''0123456789ABCDEF'' ! (n mod 16)"

definition percent_encode :: "char \<Rightarrow> string" where
  "percent_encode c = [CHR ''%'', hex_digit (of_char c div 16), hex_digit (of_char c mod 16)]"

definition encodeURIComponent :: "string \<Rightarrow> string" where
  "encodeURIComponent s =
     concat (map (\<lambda>c. if uri_unreserved c then [c] else percent_encode c) s)"

text \<open>
  The decimal digits of an integer, as a template literal renders a number
  (\<^verbatim>\<open>Number.prototype.toString\<close> on an integer value).
\<close>

definition digit_char :: "nat \<Rightarrow> char" where
  "digit_char d = ''0123456789'' ! (d mod 10)"

fun decimal :: "nat \<Rightarrow> string" where
  "decimal n = (if 10 \<le> n then decimal (n div 10) @ [digit_char n] else [digit_char n])"

declare decimal.simps [simp del]

definition Number_toString :: "int \<Rightarrow> string" where
  "Number_toString i = (if 0 \<le> i then decimal (nat i) else CHR ''-'' # decimal (nat (- i)))"

text \<open>
  Truthiness of an optional string field: \<^verbatim>\<open>undefined\<close>, \<^verbatim>\<open>null\<close> and the empty
  string are falsy. \<open>or_else v d\<close> is \<^verbatim>\<open>v || d\<close> for a string \<open>d\<close>.
\<close>

definition truthy :: "string option \<Rightarrow> bool" where
  "truthy v = (case v of None \<Rightarrow> False | Some s \<Rightarrow> s \<noteq> [])"

definition or_else :: "string option \<Rightarrow> string \<Rightarrow> string" where
  "or_else v d = (case v of None \<Rightarrow> d | Some s \<Rightarrow> if s \<noteq> [] then s else d)"

section \<open>Data model (\<^verbatim>\<open>types.ts\<close>) and the upstream response\<close>

record TabConfig =
  tab_id :: string
  label :: string
  icon :: string
  keyword :: string

text \<open>
  \<open>pubDate\<close> is the ISO-8601 string \<^verbatim>\<open>dateObj.toISOString()\<close>; the model holds the
  instant it denotes, in milliseconds since the epoch, which is what
  \<^verbatim>\<open>new Date(a.pubDate).getTime()\<close> reads back from it.
\<close>

record NewsArticle =
  article_id :: string
  category :: string
  title :: string
  date :: string
  pubDate :: int
  summary :: string
  imageUrl :: string
  source :: string
  link :: string

text \<open>An item of the JSON body of the feed-to-JSON service, and the body itself.\<close>

record rss_item =
  item_title :: string
  item_description :: "string option"
  item_content :: "string option"
  item_author :: "string option"
  item_thumbnail :: "string option"
  item_enclosure_link :: "string option"
  item_pubDate :: string
  item_guid :: "string option"
  item_link :: string

record api_data =
  status :: string
  feed_title :: "string option"
  items :: "rss_item list"

text \<open>
  What \<^verbatim>\<open>await fetch(url)\<close> followed by \<^verbatim>\<open>await response.json()\<close> gives: the request is
  rejected (transport error), or it answers with \<^verbatim>\<open>response.ok\<close> and a body that parses
  (\<open>Some\<close>) or not (\<open>None\<close>).
\<close>

datatype api_response = Rejected | Response bool "api_data option"

text \<open>
  The browser functions the normalisation calls, taken as parameters:
  \<^item> \<open>first_img\<close>: \<^verbatim>\<open>new DOMParser().parseFromString(html, 'text/html').querySelector('img')\<close>,
    as \<open>None\<close> when the document has no \<^verbatim>\<open>img\<close> element and otherwise \<open>Some\<close> of the
    element's \<^verbatim>\<open>getAttribute('src')\<close> (\<open>None\<close> for \<^verbatim>\<open>null\<close>);
  \<^item> \<open>Date_parse\<close>: the time value of \<^verbatim>\<open>new Date(str)\<close>, \<open>None\<close> for an invalid date;
  \<^item> \<open>toLocaleDateString\<close>: the \<^verbatim>\<open>ja-JP\<close> rendering of a time value;
  \<^item> \<open>substring\<close>: \<^verbatim>\<open>s.substring(i, j)\<close>, which counts UTF-16 code units.
\<close>

record platform =
  first_img :: "string \<Rightarrow> string option option"
  Date_parse :: "string \<Rightarrow> int option"
  toLocaleDateString :: "int \<Rightarrow> string"
  substring :: "string \<Rightarrow> nat \<Rightarrow> nat \<Rightarrow> string"

text \<open>
  The clock and the network of one call of \<^verbatim>\<open>fetchNews\<close>: \<^verbatim>\<open>Date.now()\<close> at the
  cache check and at the cache store, and the answer to a request for a URL.
\<close>

record env =
  now_check :: int
  now_store :: int
  fetch :: "string \<Rightarrow> api_response"

record cache_entry =
  data :: "NewsArticle list"
  timestamp :: int

text \<open>
  The state of the \<^verbatim>\<open>App\<close> component. \<open>requests\<close> is not a variable of the source:
  it logs the URLs requested from the network, in order.
\<close>

record app_state =
  tabs :: "TabConfig list"
  activeTabId :: string
  newsList :: "NewsArticle list"
  loading :: bool
  error :: "string option"
  newsCache :: "string \<rightharpoonup> cache_entry"
  isSettingsOpen :: bool
  readIds :: "string set"
  hiddenSources :: "string set"
  showHiddenArticles :: bool
  isDarkMode :: bool
  maxTabs :: int
  requests :: "string list"

section \<open>\<^verbatim>\<open>App.tsx\<close>\<close>

definition CACHE_DURATION :: int where
  "CACHE_DURATION = 5 * 60 * 1000"

text \<open>The summary shown for an item with no description ("there is no summary of the article").\<close>

definition NO_SUMMARY :: string where
  "NO_SUMMARY =
     [CHR 0xE8, CHR 0xA8, CHR 0x98, CHR 0xE4, CHR 0xBA, CHR 0x8B, CHR 0xE3, CHR 0x81,
      CHR 0xAE, CHR 0xE8, CHR 0xA6, CHR 0x81, CHR 0xE7, CHR 0xB4, CHR 0x84, CHR 0xE3,
      CHR 0x81, CHR 0xAF, CHR 0xE3, CHR 0x81, CHR 0x82, CHR 0xE3, CHR 0x82, CHR 0x8A,
      CHR 0xE3, CHR 0x81, CHR 0xBE, CHR 0xE3, CHR 0x81, CHR 0x9B, CHR 0xE3, CHR 0x82,
      CHR 0x93, CHR 0xE3, CHR 0x80, CHR 0x82]"

text \<open>
  The message of the failure with a cache entry ("fetching the latest failed, but the
  earlier data is being displayed").
\<close>

definition STALE_MESSAGE :: string where
  "STALE_MESSAGE =
     [CHR 0xE6, CHR 0x9C, CHR 0x80, CHR 0xE6, CHR 0x96, CHR 0xB0, CHR 0xE3, CHR 0x81,
      CHR 0xAE, CHR 0xE5, CHR 0x8F, CHR 0x96, CHR 0xE5, CHR 0xBE, CHR 0x97, CHR 0xE3,
      CHR 0x81, CHR 0xAB, CHR 0xE5, CHR 0xA4, CHR 0xB1, CHR 0xE6, CHR 0x95, CHR 0x97,
      CHR 0xE3, CHR 0x81, CHR 0x97, CHR 0xE3, CHR 0x81, CHR 0xBE, CHR 0xE3, CHR 0x81,
      CHR 0x97, CHR 0xE3, CHR 0x81, CHR 0x9F, CHR 0xE3, CHR 0x81, CHR 0x8C, CHR 0xE3,
      CHR 0x80, CHR 0x81, CHR 0xE4, CHR 0xBB, CHR 0xA5, CHR 0xE5, CHR 0x89, CHR 0x8D,
      CHR 0xE3, CHR 0x81, CHR 0xAE, CHR 0xE3, CHR 0x83, CHR 0x87, CHR 0xE3, CHR 0x83,
      CHR 0xBC, CHR 0xE3, CHR 0x82, CHR 0xBF, CHR 0xE3, CHR 0x82, CHR 0x92, CHR 0xE8,
      CHR 0xA1, CHR 0xA8, CHR 0xE7, CHR 0xA4, CHR 0xBA, CHR 0xE3, CHR 0x81, CHR 0x97,
      CHR 0xE3, CHR 0x81, CHR 0xA6, CHR 0xE3, CHR 0x81, CHR 0x84, CHR 0xE3, CHR 0x81,
      CHR 0xBE, CHR 0xE3, CHR 0x81, CHR 0x99, CHR 0xE3, CHR 0x80, CHR 0x82]"

text \<open>
  The message of the failure with no cache entry ("loading the news failed; please retry
  after a while").
\<close>

definition FAILED_MESSAGE :: string where
  "FAILED_MESSAGE =
     [CHR 0xE3, CHR 0x83, CHR 0x8B, CHR 0xE3, CHR 0x83, CHR 0xA5, CHR 0xE3, CHR 0x83,
      CHR 0xBC, CHR 0xE3, CHR 0x82, CHR 0xB9, CHR 0xE3, CHR 0x81, CHR 0xAE, CHR 0xE8,
      CHR 0xAA, CHR 0xAD, CHR 0xE3, CHR 0x81, CHR 0xBF, CHR 0xE8, CHR 0xBE, CHR 0xBC,
      CHR 0xE3, CHR 0x81, CHR 0xBF, CHR 0xE3, CHR 0x81, CHR 0xAB, CHR 0xE5, CHR 0xA4,
      CHR 0xB1, CHR 0xE6, CHR 0x95, CHR 0x97, CHR 0xE3, CHR 0x81, CHR 0x97, CHR 0xE3,
      CHR 0x81, CHR 0xBE, CHR 0xE3, CHR 0x81, CHR 0x97, CHR 0xE3, CHR 0x81, CHR 0x9F,
      CHR 0xE3, CHR 0x80, CHR 0x82, CHR 0xE6, CHR 0x99, CHR 0x82, CHR 0xE9, CHR 0x96,
      CHR 0x93, CHR 0xE3, CHR 0x82, CHR 0x92, CHR 0xE3, CHR 0x81, CHR 0x8A, CHR 0xE3,
      CHR 0x81, CHR 0x84, CHR 0xE3, CHR 0x81, CHR 0xA6, CHR 0xE5, CHR 0x86, CHR 0x8D,
      CHR 0xE8, CHR 0xA9, CHR 0xA6, CHR 0xE8, CHR 0xA1, CHR 0x8C, CHR 0xE3, CHR 0x81,
      CHR 0x97, CHR 0xE3, CHR 0x81, CHR 0xA6, CHR 0xE3, CHR 0x81, CHR 0x8F, CHR 0xE3,
      CHR 0x81, CHR 0xA0, CHR 0xE3, CHR 0x81, CHR 0x95, CHR 0xE3, CHR 0x81, CHR 0x84,
      CHR 0xE3, CHR 0x80, CHR 0x82]"

subsection \<open>\<^verbatim>\<open>getRssUrl\<close>\<close>

definition getRssUrl :: "string \<Rightarrow> string" where
  "getRssUrl kw =
     (if startsWith kw ''http://'' \<or> startsWith kw ''https://'' then kw
      else ''https://news.google.com/rss/search?q='' @ encodeURIComponent kw
           @ ''&hl=ja&gl=JP&ceid=JP:ja'')"

subsection \<open>\<^verbatim>\<open>extractImageFromHtml\<close>\<close>

text \<open>
  \<^verbatim>\<open>parseFromString\<close> with \<^verbatim>\<open>'text/html'\<close> does not throw, so the \<^verbatim>\<open>catch\<close> branch
  of the source has no case here.
\<close>

definition extractImageFromHtml :: "platform \<Rightarrow> string \<Rightarrow> string option" where
  "extractImageFromHtml P htmlContent =
     (if htmlContent = [] then None
      else (case first_img P htmlContent of
              None \<Rightarrow> None
            | Some src \<Rightarrow> src))"

subsection \<open>The normalisation of one item, inside \<^verbatim>\<open>fetchNews\<close>\<close>

text \<open>
  \<^verbatim>\<open>description.replace(/<[^>]*>?/gm, '')\<close>: at each \<^verbatim>\<open><\<close>, everything up to and
  including the next \<^verbatim>\<open>>\<close> (or up to the end, when there is none) is removed.
\<close>

function strip_tags :: "string \<Rightarrow> string" where
  "strip_tags [] = []"
| "strip_tags (c # cs) =
     (if c = CHR ''<'' then strip_tags (drop 1 (dropWhile (\<lambda>d. d \<noteq> CHR ''>'') cs))
      else c # strip_tags cs)"
  by pat_completeness auto
termination
proof (relation "measure length")
  fix c :: char and cs :: string
  have "length (dropWhile (\<lambda>d. d \<noteq> CHR ''>'') cs) \<le> length cs"
    by (rule length_dropWhile_le)
  then show "(drop 1 (dropWhile (\<lambda>d. d \<noteq> CHR ''>'') cs), c # cs) \<in> measure length"
    by simp
qed simp_all

definition cleanSummary :: "platform \<Rightarrow> rss_item \<Rightarrow> string" where
  "cleanSummary P item =
     (case item_description item of
        None \<Rightarrow> NO_SUMMARY
      | Some d \<Rightarrow> if d \<noteq> [] then substring P (strip_tags d) 0 100 @ ''...'' else NO_SUMMARY)"

definition SEP :: string where
  "SEP = '' - ''"

text \<open>
  The pair \<^verbatim>\<open>(title, source)\<close> after the \<^verbatim>\<open>if (title.includes(' - '))\<close> block;
  \<^verbatim>\<open>parts.pop()\<close> takes the last piece and leaves the others in \<^verbatim>\<open>parts\<close>.
\<close>

definition title_source :: "string option \<Rightarrow> rss_item \<Rightarrow> string \<times> string" where
  "title_source feedTitle item =
     (let title0 = item_title item;
          source0 = or_else (item_author item) (or_else feedTitle ''Unknown Source'')
      in if includes_str title0 SEP
         then (let parts = split_str title0 SEP
               in (join_str (butlast parts) SEP, last parts))
         else (title0, source0))"

definition placeholder :: "string \<Rightarrow> string" where
  "placeholder t = ''https://picsum.photos/seed/'' @ encodeURIComponent t @ ''/800/450''"

text \<open>
  The image chain. \<open>step1\<close> is \<^verbatim>\<open>imageUrl\<close> after the \<^verbatim>\<open>if / else if / else if\<close>;
  \<open>step2\<close> after the \<^verbatim>\<open>content\<close> step; the result after the fallback.
\<close>

definition imageUrl_of :: "platform \<Rightarrow> rss_item \<Rightarrow> string" where
  "imageUrl_of P item =
     (let step1 =
            (if truthy (item_thumbnail item) then item_thumbnail item
             else if truthy (item_enclosure_link item) then item_enclosure_link item
             else (case item_description item of
                     None \<Rightarrow> None
                   | Some d \<Rightarrow> if d \<noteq> [] then extractImageFromHtml P d else None));
          step2 =
            (case item_content item of
               None \<Rightarrow> step1
             | Some c \<Rightarrow> if \<not> truthy step1 \<and> c \<noteq> [] then extractImageFromHtml P c else step1)
      in (case step2 of
            None \<Rightarrow> placeholder (item_title item)
          | Some u \<Rightarrow> if u \<noteq> [] then u else placeholder (item_title item)))"

text \<open>
  One item of \<^verbatim>\<open>data.items.map((item, index) => ...)\<close>. \<^verbatim>\<open>dateObj.toISOString()\<close> throws
  a \<^verbatim>\<open>RangeError\<close> on an invalid date: the result is \<open>None\<close>.
\<close>

definition normalize_item ::
  "platform \<Rightarrow> string \<Rightarrow> string option \<Rightarrow> nat \<Rightarrow> rss_item \<Rightarrow> NewsArticle option" where
  "normalize_item P tabId feedTitle index item =
     (case Date_parse P (item_pubDate item) of
        None \<Rightarrow> None
      | Some t \<Rightarrow>
          Some \<lparr> article_id =
                   or_else (item_guid item)
                     (tabId @ ''-'' @ decimal index @ ''-'' @ item_pubDate item),
                 category = tabId,
                 title = fst (title_source feedTitle item),
                 date = toLocaleDateString P t,
                 pubDate = t,
                 summary = cleanSummary P item,
                 imageUrl = imageUrl_of P item,
                 source = trim (snd (title_source feedTitle item)),
                 link = item_link item \<rparr>)"

text \<open>The whole \<^verbatim>\<open>map\<close>: an exception in one item aborts it.\<close>

definition normalize_items :: "platform \<Rightarrow> string \<Rightarrow> api_data \<Rightarrow> NewsArticle list option" where
  "normalize_items P tabId d =
     those (map (\<lambda>(index, item). normalize_item P tabId (feed_title d) index item)
                (enumerate 0 (items d)))"

subsection \<open>Sorting and truncation\<close>

text \<open>
  \<^verbatim>\<open>Array.prototype.sort\<close> with a comparator is a stable sort (ECMAScript 2019): an
  element goes before the first element already placed that the comparator does not
  put before it. Elements are inserted from the last to the first, so of two elements
  that compare equal the one that came first stays first.
\<close>

fun insert_by :: "('a \<Rightarrow> 'a \<Rightarrow> int) \<Rightarrow> 'a \<Rightarrow> 'a list \<Rightarrow> 'a list" where
  "insert_by cmp x [] = [x]"
| "insert_by cmp x (y # ys) =
     (if cmp x y \<le> 0 then x # y # ys else y # insert_by cmp x ys)"

definition sort_by :: "('a \<Rightarrow> 'a \<Rightarrow> int) \<Rightarrow> 'a list \<Rightarrow> 'a list" where
  "sort_by cmp xs = foldr (insert_by cmp) xs []"

text \<open>The comparator of the source: \<^verbatim>\<open>new Date(b.pubDate).getTime() - new Date(a.pubDate).getTime()\<close>.\<close>

definition by_pubDate_desc :: "NewsArticle \<Rightarrow> NewsArticle \<Rightarrow> int" where
  "by_pubDate_desc a b = pubDate b - pubDate a"

definition slice :: "'a list \<Rightarrow> nat \<Rightarrow> nat \<Rightarrow> 'a list" where
  "slice xs i j = take (j - i) (drop i xs)"

subsection \<open>\<^verbatim>\<open>fetchNews\<close>\<close>

text \<open>
  The body of the \<^verbatim>\<open>try\<close> block after the request: \<open>None\<close> when it throws (the
  request is rejected, \<^verbatim>\<open>response.ok\<close> is false, the body does not parse, its status is
  not \<^verbatim>\<open>'ok'\<close>, or an item has an invalid date), otherwise \<^verbatim>\<open>mappedNews\<close>.
\<close>

definition mappedNews :: "platform \<Rightarrow> string \<Rightarrow> api_response \<Rightarrow> NewsArticle list option" where
  "mappedNews P tabId r =
     (case r of
        Rejected \<Rightarrow> None
      | Response ok body \<Rightarrow>
          if \<not> ok then None
          else (case body of
                  None \<Rightarrow> None
                | Some d \<Rightarrow>
                    if status d \<noteq> ''ok'' then None
                    else map_option (\<lambda>as. slice (sort_by by_pubDate_desc as) 0 12)
                           (normalize_items P tabId d)))"

definition request_url :: "string \<Rightarrow> string" where
  "request_url kw =
     ''https://api.rss2json.com/v1/api.json?rss_url='' @ encodeURIComponent (getRssUrl kw)"

text \<open>
  The \<^verbatim>\<open>try / catch / finally\<close> of \<^verbatim>\<open>fetchNews\<close>, reached when the cache does not
  answer: the request, then the cache store and the new list on success, the fallback to
  the cache entry or the failure message otherwise.
\<close>

definition fetch_remote ::
  "env \<Rightarrow> platform \<Rightarrow> string \<Rightarrow> TabConfig \<Rightarrow> app_state \<Rightarrow> app_state" where
  "fetch_remote E P tabId activeTab s1 =
     (let url = request_url (keyword activeTab);
          s2 = s1\<lparr>requests := requests s1 @ [url]\<rparr>
      in (case mappedNews P tabId (fetch E url) of
            Some news \<Rightarrow>
              s2\<lparr>newsCache := (newsCache s2)(tabId \<mapsto> \<lparr>data = news, timestamp = now_store E\<rparr>),
                 newsList := news, loading := False\<rparr>
          | None \<Rightarrow>
              (case newsCache s2 tabId of
                 Some cached \<Rightarrow>
                   s2\<lparr>newsList := data cached, error := Some STALE_MESSAGE, loading := False\<rparr>
               | None \<Rightarrow> s2\<lparr>error := Some FAILED_MESSAGE, loading := False\<rparr>)))"

text \<open>
  \<^verbatim>\<open>fetchNews(tabId, currentTabs)\<close>, run to its end in one step: the state after the
  \<^verbatim>\<open>finally\<close> block.
\<close>

definition fetchNews ::
  "env \<Rightarrow> platform \<Rightarrow> string \<Rightarrow> TabConfig list \<Rightarrow> app_state \<Rightarrow> app_state" where
  "fetchNews E P tabId currentTabs s =
     (let s1 = s\<lparr>loading := True, error := None\<rparr>
      in (case find (\<lambda>t. tab_id t = tabId) currentTabs of
            None \<Rightarrow> s1\<lparr>loading := False\<rparr>
          | Some activeTab \<Rightarrow>
              (case newsCache s1 tabId of
                 Some cached \<Rightarrow>
                   if now_check E - timestamp cached < CACHE_DURATION
                   then s1\<lparr>newsList := data cached, loading := False\<rparr>
                   else fetch_remote E P tabId activeTab s1
               | None \<Rightarrow> fetch_remote E P tabId activeTab s1)))"

subsection \<open>\<^verbatim>\<open>handleSaveSettings\<close> and the forced refresh\<close>

definition handleSaveSettings ::
  "env \<Rightarrow> platform \<Rightarrow> TabConfig list \<Rightarrow> int \<Rightarrow> app_state \<Rightarrow> app_state" where
  "handleSaveSettings E P newTabs newMaxTabs s =
     fetchNews E P (activeTabId s) newTabs
       (s\<lparr>tabs := newTabs, maxTabs := newMaxTabs, newsCache := Map.empty, newsList := []\<rparr>)"

text \<open>
  The retry button and the refresh button:
  \<^verbatim>\<open>delete newsCache.current[activeTabId]; fetchNews(activeTabId)\<close>.
\<close>

definition forceRefresh :: "env \<Rightarrow> platform \<Rightarrow> app_state \<Rightarrow> app_state" where
  "forceRefresh E P s =
     fetchNews E P (activeTabId s) (tabs s)
       (s\<lparr>newsCache := (newsCache s)(activeTabId s := None)\<rparr>)"

subsection \<open>Read and hidden sets\<close>

definition markAsRead :: "string \<Rightarrow> app_state \<Rightarrow> app_state" where
  "markAsRead i s = s\<lparr>readIds := insert i (readIds s)\<rparr>"

definition hideSource :: "string \<Rightarrow> app_state \<Rightarrow> app_state" where
  "hideSource src s = s\<lparr>hiddenSources := insert src (hiddenSources s)\<rparr>"

definition unhideSource :: "string \<Rightarrow> app_state \<Rightarrow> app_state" where
  "unhideSource src s = s\<lparr>hiddenSources := hiddenSources s - {src}\<rparr>"

definition resetHiddenSources :: "app_state \<Rightarrow> app_state" where
  "resetHiddenSources s = s\<lparr>hiddenSources := {}, showHiddenArticles := False\<rparr>"

subsection \<open>What is rendered\<close>

definition visibleNews :: "app_state \<Rightarrow> NewsArticle list" where
  "visibleNews s =
     (if showHiddenArticles s then newsList s
      else filter (\<lambda>article. source article \<notin> hiddenSources s) (newsList s))"

text \<open>
  The main area of the page, \<^verbatim>\<open>loading ? ... : error ? ... : ...\<close>: the spinner, or the
  panel with the error message and the retry button, or the grid of the visible articles.
\<close>

datatype view = Spinner | ErrorPanel string | ArticleGrid "NewsArticle list"

definition render :: "app_state \<Rightarrow> view" where
  "render s =
     (if loading s then Spinner
      else (case error s of
              None \<Rightarrow> ArticleGrid (visibleNews s)
            | Some e \<Rightarrow> if e \<noteq> [] then ErrorPanel e else ArticleGrid (visibleNews s)))"

subsection \<open>The user's actions, as the page wires them to the handlers\<close>

datatype user_action =
    ToggleDarkMode
  | ResetHidden
  | OpenSettings
  | CloseSettings
  | TabChange string
  | ToggleShowHidden
  | ForceRefresh
  | ArticleClick NewsArticle
  | HideSource NewsArticle
  | UnhideSource NewsArticle
  | SaveSettings "TabConfig list" int

text \<open>
  \<^verbatim>\<open>TabChange\<close> is \<^verbatim>\<open>setActiveTabId\<close> followed by the effect on \<^verbatim>\<open>activeTabId\<close>, which
  runs when the value has changed. \<^verbatim>\<open>ArticleClick\<close> is \<^verbatim>\<open>handleArticleClick\<close> of the
  card, which does nothing on a card of a hidden source. \<^verbatim>\<open>SaveSettings\<close> is the modal's
  \<^verbatim>\<open>handleSave\<close>: \<^verbatim>\<open>onSave\<close>, then \<^verbatim>\<open>onClose\<close>.
\<close>

fun dispatch :: "env \<Rightarrow> platform \<Rightarrow> user_action \<Rightarrow> app_state \<Rightarrow> app_state" where
  "dispatch E P ToggleDarkMode s = s\<lparr>isDarkMode := \<not> isDarkMode s\<rparr>"
| "dispatch E P ResetHidden s = resetHiddenSources s"
| "dispatch E P OpenSettings s = s\<lparr>isSettingsOpen := True\<rparr>"
| "dispatch E P CloseSettings s = s\<lparr>isSettingsOpen := False\<rparr>"
| "dispatch E P (TabChange t) s =
     (if t = activeTabId s then s else fetchNews E P t (tabs s) (s\<lparr>activeTabId := t\<rparr>))"
| "dispatch E P ToggleShowHidden s = s\<lparr>showHiddenArticles := \<not> showHiddenArticles s\<rparr>"
| "dispatch E P ForceRefresh s = forceRefresh E P s"
| "dispatch E P (ArticleClick a) s =
     (if source a \<in> hiddenSources s then s else markAsRead (article_id a) s)"
| "dispatch E P (HideSource a) s = hideSource (source a) s"
| "dispatch E P (UnhideSource a) s = unhideSource (source a) s"
| "dispatch E P (SaveSettings newTabs newMaxTabs) s =
     (handleSaveSettings E P newTabs newMaxTabs s)\<lparr>isSettingsOpen := False\<rparr>"

subsection \<open>Cached tabs are configured tabs\<close>

text \<open>
  A cache entry is only ever written for a tab that \<^verbatim>\<open>fetchNews\<close> found in the tab list,
  and saving a new tab list empties the cache first. So in every state the user's
  actions reach from one where this holds, a tab with a cache entry is a configured tab.
\<close>

definition cached_tabs_configured :: "app_state \<Rightarrow> bool" where
  "cached_tabs_configured s =
     (\<forall>t. newsCache s t \<noteq> None \<longrightarrow> find (\<lambda>x. tab_id x = t) (tabs s) \<noteq> None)"

section \<open>\<^verbatim>\<open>TabSettingsModal.tsx\<close>\<close>

text \<open>The working copy that the settings editor holds until it is saved.\<close>

record modal_state =
  editingTabs :: "TabConfig list"
  editingMaxTabs :: int
  draggedIndex :: "nat option"
  isDragEnabled :: bool

text \<open>
  \<^verbatim>\<open>handleAddTab\<close> and \<^verbatim>\<open>handleDeleteTab\<close> return early, leaving the state as it is, when
  the list is full or down to one tab: \<open>Inl\<close> of the reason.
\<close>

datatype tab_error = CapacityExceeded | MinimumViolation

text \<open>The label ("new tab") and the keyword ("news") of an added tab.\<close>

definition NEW_TAB_LABEL :: string where
  "NEW_TAB_LABEL =
     [CHR 0xE6, CHR 0x96, CHR 0xB0, CHR 0xE8, CHR 0xA6, CHR 0x8F, CHR 0xE3, CHR 0x82,
      CHR 0xBF, CHR 0xE3, CHR 0x83, CHR 0x96]"

definition NEW_TAB_KEYWORD :: string where
  "NEW_TAB_KEYWORD =
     [CHR 0xE3, CHR 0x83, CHR 0x8B, CHR 0xE3, CHR 0x83, CHR 0xA5, CHR 0xE3, CHR 0x83,
      CHR 0xBC, CHR 0xE3, CHR 0x82, CHR 0xB9]"

definition handleAddTab :: "int \<Rightarrow> modal_state \<Rightarrow> tab_error + modal_state" where
  "handleAddTab now m =
     (if int (length (editingTabs m)) \<ge> editingMaxTabs m then Inl CapacityExceeded
      else Inr (m\<lparr>editingTabs :=
                    editingTabs m @
                    [\<lparr>tab_id = ''tab-'' @ Number_toString now, label = NEW_TAB_LABEL,
                      icon = ''fa-hashtag'', keyword = NEW_TAB_KEYWORD\<rparr>]\<rparr>))"

definition handleDeleteTab :: "nat \<Rightarrow> modal_state \<Rightarrow> tab_error + modal_state" where
  "handleDeleteTab index m =
     (if length (editingTabs m) \<le> 1 then Inl MinimumViolation
      else Inr (m\<lparr>editingTabs :=
                    map snd (filter (\<lambda>(i, t). i \<noteq> index) (enumerate 0 (editingTabs m)))\<rparr>))"

text \<open>
  The \<^verbatim>\<open>onChange\<close> handler of the maximum-tabs input; \<open>val\<close> is
  \<^verbatim>\<open>parseInt(e.target.value)\<close>, \<open>None\<close> for \<^verbatim>\<open>NaN\<close>.
\<close>

definition onChangeMaxTabs :: "int option \<Rightarrow> modal_state \<Rightarrow> modal_state" where
  "onChangeMaxTabs val m =
     (case val of
        None \<Rightarrow> m
      | Some v \<Rightarrow> if v \<ge> 1 \<and> v \<le> 20 then m\<lparr>editingMaxTabs := v\<rparr> else m)"


text \<open>
  \<^verbatim>\<open>isUrl\<close>, the editor's test for showing a keyword as a feed address rather than a
  search: the trimmed keyword begins with \<^verbatim>\<open>http://\<close> or \<^verbatim>\<open>https://\<close>.
\<close>

definition isUrl :: "string \<Rightarrow> bool" where
  "isUrl str = (let s = trim str in startsWith s ''http://'' \<or> startsWith s ''https://'')"

section \<open>Inputs for the concrete checks\<close>

text \<open>
  A platform that knows one document and two dates; feeds of two items, of three items
  of which two share their date, and of thirteen items; two tabs; networks that answer
  with these feeds and one that is down; two states of the page, a fresh one and one
  whose cache holds an expired entry for \<^verbatim>\<open>tab-1\<close> and a fresh entry for \<^verbatim>\<open>tab-2\<close>;
  three states of the settings editor.
\<close>

definition IMG_X :: string where
  "IMG_X = ''<img src='' @ [CHR 0x22] @ ''X'' @ [CHR 0x22] @ ''>''"

definition ex_platform :: platform where
  "ex_platform =
     \<lparr> first_img = (\<lambda>h. if h = IMG_X then Some (Some ''X'') else None),
       Date_parse = (\<lambda>d. if d = ''2024-01-01 09:00:00'' then Some 1704099600000
                          else if d = ''2024-01-02 09:00:00'' then Some 1704186000000
                          else None),
       toLocaleDateString = (\<lambda>t. if t = 1704099600000 then ''2024/1/1'' else ''2024/1/2''),
       substring = (\<lambda>s i j. take (j - i) (drop i s)) \<rparr>"

definition ex_item1 :: rss_item where
  "ex_item1 =
     \<lparr> item_title = ''Timetable change'', item_description = None,
       item_content = Some IMG_X, item_author = Some ''Jane Doe'', item_thumbnail = None,
       item_enclosure_link = None, item_pubDate = ''2024-01-01 09:00:00'',
       item_guid = None, item_link = ''https://example.org/1'' \<rparr>"

definition ex_item2 :: rss_item where
  "ex_item2 =
     \<lparr> item_title = ''Local bus cuts - Example Times'',
       item_description = Some ''<p>Fewer buses</p>'', item_content = None,
       item_author = Some [], item_thumbnail = Some ''https://example.org/t.png'',
       item_enclosure_link = None, item_pubDate = ''2024-01-02 09:00:00'',
       item_guid = Some ''guid-2'', item_link = ''https://example.org/2'' \<rparr>"

definition ex_item3 :: rss_item where
  "ex_item3 =
     \<lparr> item_title = ''A - - B'', item_description = None, item_content = None,
       item_author = None, item_thumbnail = None, item_enclosure_link = None,
       item_pubDate = ''2024-01-01 09:00:00'', item_guid = Some ''guid-3'',
       item_link = ''https://example.org/3'' \<rparr>"

definition ex_data :: api_data where
  "ex_data =
     \<lparr> status = ''ok'', feed_title = Some ''Example Feed'', items = [ex_item1, ex_item2] \<rparr>"

definition ex_data3 :: api_data where
  "ex_data3 =
     \<lparr> status = ''ok'', feed_title = None, items = [ex_item1, ex_item2, ex_item3] \<rparr>"

text \<open>A feed of thirteen items whose newest item comes last.\<close>

definition ex_data13 :: api_data where
  "ex_data13 =
     \<lparr> status = ''ok'', feed_title = None, items = replicate 12 ex_item1 @ [ex_item2] \<rparr>"

definition ex_tab1 :: TabConfig where
  "ex_tab1 = \<lparr>tab_id = ''tab-1'', label = ''Bus'', icon = ''fa-bus'', keyword = ''bus cuts''\<rparr>"

definition ex_tab2 :: TabConfig where
  "ex_tab2 =
     \<lparr>tab_id = ''tab-2'', label = ''Gadgets'', icon = ''fa-laptop'',
      keyword = ''https://www.gizmodo.jp/index.xml''\<rparr>"

definition ex_tabs :: "TabConfig list" where
  "ex_tabs = [ex_tab1, ex_tab2]"


definition ex_env_ok :: env where
  "ex_env_ok =
     \<lparr> now_check = 1000000, now_store = 1000200,
       fetch = (\<lambda>u. Response True (Some ex_data)) \<rparr>"

definition ex_env_ok3 :: env where
  "ex_env_ok3 =
     \<lparr> now_check = 1000000, now_store = 1000200,
       fetch = (\<lambda>u. Response True (Some ex_data3)) \<rparr>"

definition ex_env_ok13 :: env where
  "ex_env_ok13 =
     \<lparr> now_check = 1000000, now_store = 1000200,
       fetch = (\<lambda>u. Response True (Some ex_data13)) \<rparr>"

definition ex_env_down :: env where
  "ex_env_down = \<lparr> now_check = 1000000, now_store = 1000200, fetch = (\<lambda>u. Rejected) \<rparr>"

definition ex_article :: NewsArticle where
  "ex_article =
     \<lparr> article_id = ''guid-0'', category = ''tab-1'', title = ''Earlier story'',
       date = ''2023/12/31'', pubDate = 1704013200000, summary = ''Earlier...'',
       imageUrl = ''https://example.org/0.png'', source = ''Example Times'',
       link = ''https://example.org/0'' \<rparr>"

definition ex_article2 :: NewsArticle where
  "ex_article2 =
     \<lparr> article_id = ''guid-9'', category = ''tab-2'', title = ''New gadget'',
       date = ''2023/12/31'', pubDate = 1704013200000, summary = ''Gadget...'',
       imageUrl = ''https://example.org/9.png'', source = ''Gadget Daily'',
       link = ''https://example.org/9'' \<rparr>"

definition ex_state :: app_state where
  "ex_state =
     \<lparr> tabs = ex_tabs, activeTabId = ''tab-1'', newsList = [], loading = False, error = None,
       newsCache = Map.empty, isSettingsOpen = False, readIds = {},
       hiddenSources = {}, showHiddenArticles = False, isDarkMode = False, maxTabs = 7,
       requests = [] \<rparr>"

definition ex_state_cached :: app_state where
  "ex_state_cached =
     ex_state
       \<lparr> newsList := [ex_article2],
         newsCache := [''tab-1'' \<mapsto> \<lparr>data = [ex_article], timestamp = 0\<rparr>,
                       ''tab-2'' \<mapsto> \<lparr>data = [ex_article2], timestamp = 900000\<rparr>],
         readIds := {''guid-0''},
         hiddenSources := {''Example Times'', ''Gadget Daily''} \<rparr>"

definition ex_modal :: modal_state where
  "ex_modal =
     \<lparr> editingTabs = ex_tabs, editingMaxTabs = 7, draggedIndex = None, isDragEnabled = False \<rparr>"

definition ex_modal_full :: modal_state where
  "ex_modal_full =
     \<lparr> editingTabs = ex_tabs, editingMaxTabs = 2, draggedIndex = None, isDragEnabled = False \<rparr>"

definition ex_modal_single :: modal_state where
  "ex_modal_single =
     \<lparr> editingTabs = [ex_tab1], editingMaxTabs = 7, draggedIndex = None,
       isDragEnabled = False \<rparr>"

section \<open>Properties of the string functions\<close>

subsection \<open>Splitting and joining\<close>

lemma includes_str_iff: "includes_str s sep \<longleftrightarrow> (\<exists>a b. s = a @ sep @ b)"
proof (induction s)
  case Nil
  then show ?case by auto
next
  case (Cons c cs)
  show ?case
  proof
    assume "includes_str (c # cs) sep"
    then consider "prefix sep (c # cs)" | "includes_str cs sep" by auto
    then show "\<exists>a b. c # cs = a @ sep @ b"
    proof cases
      case 1
      then obtain b where "c # cs = sep @ b" by (auto simp: prefix_def)
      then have "c # cs = [] @ sep @ b" by simp
      then show ?thesis by blast
    next
      case 2
      then obtain a b where "cs = a @ sep @ b" using Cons.IH by blast
      then have "c # cs = (c # a) @ sep @ b" by simp
      then show ?thesis by blast
    qed
  next
    assume "\<exists>a b. c # cs = a @ sep @ b"
    then obtain a b where ab: "c # cs = a @ sep @ b" by blast
    show "includes_str (c # cs) sep"
    proof (cases a)
      case Nil
      then have "prefix sep (c # cs)" using ab by (simp add: prefix_def)
      then show ?thesis by simp
    next
      case (Cons d a')
      then have "cs = a' @ sep @ b" using ab by simp
      then have "includes_str cs sep" using Cons.IH by blast
      then show ?thesis by simp
    qed
  qed
qed

lemma split_from_nonempty: "split_from sep cur s \<noteq> []"
proof (induction sep cur s rule: split_from.induct)
  case (1 sep cur s)
  show ?case
    by (subst split_from.simps) (use 1 in \<open>auto split: list.splits\<close>)
qed

lemma join_split_from:
  "sep \<noteq> [] \<Longrightarrow> join_str (split_from sep cur s) sep = rev cur @ s"
proof (induction sep cur s rule: split_from.induct)
  case (1 sep cur s)
  show ?case
  proof (cases "prefix sep s")
    case True
    then obtain r where r: "s = sep @ r" by (auto simp: prefix_def)
    have st: "split_from sep cur s = rev cur # split_from sep [] (drop (length sep) s)"
      using True "1.prems" by (subst split_from.simps) simp
    obtain q qs where q: "split_from sep [] (drop (length sep) s) = q # qs"
      using split_from_nonempty by (cases "split_from sep [] (drop (length sep) s)") auto
    have "join_str (split_from sep [] (drop (length sep) s)) sep = drop (length sep) s"
      using "1.IH"(1) True "1.prems" by simp
    then show ?thesis using st q r by simp
  next
    case False
    show ?thesis
    proof (cases s)
      case Nil
      then show ?thesis using False by (subst split_from.simps) simp
    next
      case (Cons c cs)
      have "split_from sep cur s = split_from sep (c # cur) cs"
        using False Cons by (subst split_from.simps) simp
      moreover have "join_str (split_from sep (c # cur) cs) sep = rev (c # cur) @ cs"
        using "1.IH"(2) False Cons "1.prems" by simp
      ultimately show ?thesis using Cons by simp
    qed
  qed
qed

lemma split_from_pieces:
  "sep \<noteq> [] \<Longrightarrow> (\<And>a b. rev cur @ s = a @ sep @ b \<Longrightarrow> length cur \<le> length a) \<Longrightarrow>
   p \<in> set (split_from sep cur s) \<Longrightarrow> \<not> includes_str p sep"
proof (induction sep cur s rule: split_from.induct)
  case (1 sep cur s)
  have cur_free: "\<not> includes_str (rev cur) sep"
  proof
    assume "includes_str (rev cur) sep"
    then obtain a b where ab: "rev cur = a @ sep @ b" by (auto simp: includes_str_iff)
    then have "rev cur @ s = a @ sep @ (b @ s)" by simp
    then have "length cur \<le> length a" by (rule "1.prems"(2))
    moreover have "length cur = length a + length sep + length b"
      using arg_cong [OF ab, of length] by simp
    ultimately show False using "1.prems"(1) by simp
  qed
  show ?case
  proof (cases "prefix sep s")
    case True
    have st: "split_from sep cur s = rev cur # split_from sep [] (drop (length sep) s)"
      using True "1.prems"(1) by (subst split_from.simps) simp
    from "1.prems"(3) st consider "p = rev cur" | "p \<in> set (split_from sep [] (drop (length sep) s))"
      by auto
    then show ?thesis
    proof cases
      case 1
      then show ?thesis using cur_free by simp
    next
      case 2
      show ?thesis
        by (rule "1.IH"(1)) (use True "1.prems"(1) 2 in auto)
    qed
  next
    case False
    show ?thesis
    proof (cases s)
      case Nil
      then have "split_from sep cur s = [rev cur]" using False by (subst split_from.simps) simp
      then show ?thesis using "1.prems"(3) cur_free by simp
    next
      case (Cons c cs)
      have st: "split_from sep cur s = split_from sep (c # cur) cs"
        using False Cons by (subst split_from.simps) simp
      show ?thesis
      proof (rule "1.IH"(2))
        show "\<not> (sep \<noteq> [] \<and> prefix sep s)" using False by simp
        show "s = c # cs" by (rule Cons)
        show "sep \<noteq> []" by (rule "1.prems"(1))
        show "p \<in> set (split_from sep (c # cur) cs)" using "1.prems"(3) st by simp
      next
        fix a b
        assume eq: "rev (c # cur) @ cs = a @ sep @ b"
        then have eq': "rev cur @ s = a @ sep @ b" using Cons by simp
        then have le: "length cur \<le> length a" by (rule "1.prems"(2))
        have "length a \<noteq> length cur"
        proof
          assume "length a = length cur"
          then have "length (rev cur) = length a" by simp
          then have "s = sep @ b" using eq' by (simp add: append_eq_append_conv)
          then show False using False by (simp add: prefix_def)
        qed
        then show "length (c # cur) \<le> length a" using le by simp
      qed
    qed
  qed
qed

lemma split_from_no_sep:
  "\<not> includes_str s sep \<Longrightarrow> split_from sep cur s = [rev cur @ s]"
proof (induction s arbitrary: cur)
  case Nil
  then show ?case by (subst split_from.simps) simp
next
  case (Cons c cs)
  then have np: "\<not> prefix sep (c # cs)" and nc: "\<not> includes_str cs sep" by auto
  have "split_from sep cur (c # cs) = split_from sep (c # cur) cs"
    using np by (subst split_from.simps) simp
  then show ?case using Cons.IH [OF nc, of "c # cur"] by simp
qed

lemma includes_str_suffix:
  "includes_str (drop n s) sep \<Longrightarrow> includes_str s sep"
proof -
  assume "includes_str (drop n s) sep"
  then obtain a b where "drop n s = a @ sep @ b" by (auto simp: includes_str_iff)
  then have "s = (take n s @ a) @ sep @ b"
    by (metis append.assoc append_take_drop_id)
  then show ?thesis unfolding includes_str_iff by blast
qed

lemma split_last_occurrence:
  "\<not> includes_str (t @ SEP @ s) '' - - '' \<Longrightarrow> \<not> includes_str s SEP \<Longrightarrow>
   \<exists>ps. ps \<noteq> [] \<and> split_from SEP cur (t @ SEP @ s) = ps @ [s] \<and> join_str ps SEP = rev cur @ t"
proof (induction "length t" arbitrary: t cur rule: less_induct)
  case less
  let ?u = "t @ SEP @ s"
  show ?case
  proof (cases "prefix SEP ?u")
    case True
    have ne: "SEP \<noteq> []" by (simp add: SEP_def)
    have st: "split_from SEP cur ?u = rev cur # split_from SEP [] (drop (length SEP) ?u)"
      using True ne by (subst split_from.simps) simp
    show ?thesis
    proof (cases "t = []")
      case True
      then have "drop (length SEP) ?u = s" by simp
      then have "split_from SEP cur ?u = [rev cur] @ [s]"
        using st split_from_no_sep [OF less.prems(2), of "[]"] by simp
      then show ?thesis using True by (intro exI [of _ "[rev cur]"]) simp
    next
      case False
      have "\<exists>t'. t = SEP @ t'"
      proof (cases t)
        case Nil
        then show ?thesis using False by simp
      next
        case (Cons a t1)
        show ?thesis
        proof (cases t1)
          case Nil
          then show ?thesis using True Cons by (simp add: SEP_def)
        next
          case (Cons b t2)
          show ?thesis
          proof (cases t2)
            case Nil
            then have "t = '' -''" using True \<open>t = a # t1\<close> \<open>t1 = b # t2\<close> by (simp add: SEP_def)
            then have "?u = [] @ '' - - '' @ s" by (simp add: SEP_def)
            then have "includes_str ?u '' - - ''" unfolding includes_str_iff by blast
            then show ?thesis using less.prems(1) by simp
          next
            case (Cons c t3)
            then show ?thesis using True \<open>t = a # t1\<close> \<open>t1 = b # t2\<close> by (auto simp: SEP_def)
          qed
        qed
      qed
      then obtain t' where t': "t = SEP @ t'" by blast
      then have d: "drop (length SEP) ?u = t' @ SEP @ s" by simp
      have lt: "length t' < length t" using t' by (simp add: SEP_def)
      have "\<not> includes_str (t' @ SEP @ s) '' - - ''"
      proof
        assume "includes_str (t' @ SEP @ s) '' - - ''"
        then have "includes_str (drop (length SEP) ?u) '' - - ''" by (simp only: d)
        then have "includes_str ?u '' - - ''" by (rule includes_str_suffix)
        with less.prems(1) show False by (rule notE)
      qed
      from less.hyps [OF lt this less.prems(2), of "[]"]
      obtain ps where ps: "ps \<noteq> []" "split_from SEP [] (t' @ SEP @ s) = ps @ [s]"
        "join_str ps SEP = t'" by auto
      obtain q qs where q: "ps = q # qs" using ps(1) by (cases ps) auto
      have "split_from SEP cur ?u = (rev cur # ps) @ [s]" unfolding st d ps(2) by simp
      moreover have "join_str (rev cur # ps) SEP = rev cur @ t" using q ps(3) t' by simp
      ultimately show ?thesis by (intro exI [of _ "rev cur # ps"]) simp
    qed
  next
    case False
    then have "t \<noteq> []" by (auto simp: SEP_def)
    then obtain c t' where t': "t = c # t'" by (cases t) auto
    have st: "split_from SEP cur ?u = split_from SEP (c # cur) (t' @ SEP @ s)"
      using False t' by (subst split_from.simps) simp
    have lt: "length t' < length t" using t' by simp
    have d1: "drop 1 ?u = t' @ SEP @ s" using t' by simp
    have "\<not> includes_str (t' @ SEP @ s) '' - - ''"
    proof
      assume "includes_str (t' @ SEP @ s) '' - - ''"
      then have "includes_str (drop 1 ?u) '' - - ''" by (simp only: d1)
      then have "includes_str ?u '' - - ''" by (rule includes_str_suffix)
      with less.prems(1) show False by (rule notE)
    qed
    from less.hyps [OF lt this less.prems(2), of "c # cur"]
    obtain ps where "ps \<noteq> []" "split_from SEP (c # cur) (t' @ SEP @ s) = ps @ [s]"
      "join_str ps SEP = rev (c # cur) @ t'" by auto
    then show ?thesis using st t' by (intro exI [of _ ps]) simp
  qed
qed

subsection \<open>Trimming\<close>

lemma strip_leading_done:
  "find (\<lambda>w. w \<noteq> [] \<and> prefix w (strip_leading ws s)) ws = None"
proof (induction ws s rule: strip_leading.induct)
  case (1 ws s)
  show ?case
  proof (cases "find (\<lambda>w. w \<noteq> [] \<and> prefix w s) ws")
    case None
    then have "strip_leading ws s = s" by (subst strip_leading.simps) simp
    then show ?thesis using None by simp
  next
    case (Some w)
    then have "strip_leading ws s = strip_leading ws (drop (length w) s)"
      by (subst strip_leading.simps) simp
    then show ?thesis using "1.IH" [OF Some] by simp
  qed
qed

lemma strip_leading_suffix: "suffix (strip_leading ws s) s"
proof (induction ws s rule: strip_leading.induct)
  case (1 ws s)
  show ?case
  proof (cases "find (\<lambda>w. w \<noteq> [] \<and> prefix w s) ws")
    case None
    then have "strip_leading ws s = s" by (subst strip_leading.simps) simp
    then show ?thesis by simp
  next
    case (Some w)
    then have "strip_leading ws s = strip_leading ws (drop (length w) s)"
      by (subst strip_leading.simps) simp
    then show ?thesis using "1.IH" [OF Some] suffix_drop suffix_order.trans by metis
  qed
qed

lemma trim_no_leading: "w \<in> set js_whitespace \<Longrightarrow> \<not> prefix w (trim s)"
proof
  assume w: "w \<in> set js_whitespace" and p: "prefix w (trim s)"
  let ?u = "strip_leading js_whitespace s"
  have "suffix (strip_leading (map rev js_whitespace) (rev ?u)) (rev ?u)"
    by (rule strip_leading_suffix)
  then have "prefix (trim s) ?u" by (simp add: trim_def suffix_to_prefix)
  then have pu: "prefix w ?u" using p by (rule prefix_order.trans [rotated])
  have ne: "w \<noteq> []" using w by (auto simp: js_whitespace_def)
  have "find (\<lambda>w. w \<noteq> [] \<and> prefix w ?u) js_whitespace = None" by (rule strip_leading_done)
  then show False using w pu ne by (auto simp: find_None_iff)
qed

lemma trim_no_trailing: "w \<in> set js_whitespace \<Longrightarrow> \<not> suffix w (trim s)"
proof
  assume w: "w \<in> set js_whitespace" and p: "suffix w (trim s)"
  let ?v = "strip_leading (map rev js_whitespace) (rev (strip_leading js_whitespace s))"
  have "prefix (rev w) ?v" using p by (simp add: trim_def suffix_to_prefix)
  moreover have "rev w \<noteq> []" using w by (auto simp: js_whitespace_def)
  moreover have "rev w \<in> set (map rev js_whitespace)" using w by simp
  moreover have "find (\<lambda>w. w \<noteq> [] \<and> prefix w ?v) (map rev js_whitespace) = None"
    by (rule strip_leading_done)
  ultimately show False unfolding find_None_iff by blast
qed

lemma trim_sublist: "\<exists>a b. s = a @ trim s @ b"
proof -
  let ?u = "strip_leading js_whitespace s"
  have "suffix (strip_leading (map rev js_whitespace) (rev ?u)) (rev ?u)"
    by (rule strip_leading_suffix)
  then have "prefix (trim s) ?u" by (simp add: trim_def suffix_to_prefix)
  then obtain b where b: "?u = trim s @ b" by (auto simp: prefix_def)
  have "suffix ?u s" by (rule strip_leading_suffix)
  then obtain a where "s = a @ ?u" by (auto simp: suffix_def)
  then show ?thesis using b by metis
qed

subsection \<open>Percent-encoding\<close>

lemma hex_digit_unreserved: "uri_unreserved (hex_digit n)"
proof -
  have "n mod 16 < length ''0123456789ABCDEF''" by simp
  then have "hex_digit n \<in> set ''0123456789ABCDEF''"
    unfolding hex_digit_def by (rule nth_mem)
  then show ?thesis by (auto simp: uri_unreserved_def)
qed

lemma percent_not_unreserved: "\<not> uri_unreserved (CHR ''%'')"
  by (simp add: uri_unreserved_def)

lemma hex_digit_inj: "a < 16 \<Longrightarrow> b < 16 \<Longrightarrow> hex_digit a = hex_digit b \<Longrightarrow> a = b"
proof -
  assume a: "a < 16" and b: "b < 16" and e: "hex_digit a = hex_digit b"
  have d: "distinct ''0123456789ABCDEF''" by simp
  have "''0123456789ABCDEF'' ! a = ''0123456789ABCDEF'' ! b"
    using e a b by (simp add: hex_digit_def)
  then show "a = b" using d a b by (simp add: nth_eq_iff_index_eq)
qed

lemma percent_encode_inj: "percent_encode c = percent_encode d \<Longrightarrow> c = d"
proof -
  assume e: "percent_encode c = percent_encode d"
  have c: "(of_char c :: nat) div 16 < 16" and d: "(of_char d :: nat) div 16 < 16"
    by (rule less_mult_imp_div_less, simp add: nat_of_char_less_256)+
  have h: "hex_digit (of_char c div 16) = hex_digit (of_char d div 16)"
    and l: "hex_digit (of_char c mod 16) = hex_digit (of_char d mod 16)"
    using e by (simp_all add: percent_encode_def)
  have "(of_char c :: nat) div 16 = of_char d div 16"
    using c d h by (rule hex_digit_inj)
  moreover have "(of_char c :: nat) mod 16 = of_char d mod 16"
    using _ _ l by (rule hex_digit_inj) simp_all
  ultimately have "(of_char c :: nat) = of_char d"
    by (metis div_mult_mod_eq)
  then show "c = d" by simp
qed

lemma encodeURIComponent_Cons:
  "encodeURIComponent (c # cs) = (if uri_unreserved c then [c] else percent_encode c) @ encodeURIComponent cs"
  by (simp add: encodeURIComponent_def)

lemma encodeURIComponent_chars:
  "c \<in> set (encodeURIComponent s) \<Longrightarrow> uri_unreserved c \<or> c = CHR ''%''"
  by (induction s)
     (auto simp: encodeURIComponent_def percent_encode_def hex_digit_unreserved split: if_splits)

lemma encodeURIComponent_inj:
  "encodeURIComponent s = encodeURIComponent t \<Longrightarrow> s = t"
proof (induction s arbitrary: t)
  case Nil
  then show ?case
    by (cases t) (auto simp: encodeURIComponent_def percent_encode_def split: if_splits)
next
  case (Cons c cs)
  show ?case
  proof (cases t)
    case Nil
    then show ?thesis using Cons.prems
      by (auto simp: encodeURIComponent_def percent_encode_def split: if_splits)
  next
    case (Cons d ds)
    have e: "(if uri_unreserved c then [c] else percent_encode c) @ encodeURIComponent cs
           = (if uri_unreserved d then [d] else percent_encode d) @ encodeURIComponent ds"
      using Cons.prems Cons by (simp add: encodeURIComponent_Cons)
    have "c = d \<and> encodeURIComponent cs = encodeURIComponent ds"
    proof (cases "uri_unreserved c")
      case True
      note uc = this
      show ?thesis
      proof (cases "uri_unreserved d")
        case True
        then show ?thesis using e uc by simp
      next
        case False
        then have "c = CHR ''%''" using e uc by (simp add: percent_encode_def)
        then show ?thesis using uc percent_not_unreserved by simp
      qed
    next
      case False
      note uc = this
      show ?thesis
      proof (cases "uri_unreserved d")
        case True
        then have "d = CHR ''%''" using e uc by (simp add: percent_encode_def)
        then show ?thesis using True percent_not_unreserved by simp
      next
        case False
        then have "percent_encode c = percent_encode d \<and> encodeURIComponent cs = encodeURIComponent ds"
          using e uc by (simp add: percent_encode_def)
        then show ?thesis using percent_encode_inj by blast
      qed
    qed
    then show ?thesis using Cons.IH Cons by simp
  qed
qed

section \<open>Feed address\<close>

lemma strip_leading_keeps:
  assumes "c \<notin> set (concat ws)"
  shows "strip_leading ws (c # s) = c # s"
proof -
  have "find (\<lambda>w. w \<noteq> [] \<and> prefix w (c # s)) ws = None"
  proof (rule ccontr)
    assume "find (\<lambda>w. w \<noteq> [] \<and> prefix w (c # s)) ws \<noteq> None"
    then obtain w where "find (\<lambda>w. w \<noteq> [] \<and> prefix w (c # s)) ws = Some w" by blast
    then have w: "w \<in> set ws" "w \<noteq> []" "prefix w (c # s)"
      by (auto simp: find_Some_iff)
    from w(2,3) obtain w' where "w = c # w'" by (cases w) auto
    then have "c \<in> set w" by simp
    then have "c \<in> set (concat ws)" using w(1) by auto
    then show False using assms by simp
  qed
  then show ?thesis by (subst strip_leading.simps) simp
qed

lemma strip_leading_tail:
  assumes "\<forall>c \<in> set q. c \<notin> set (concat ws)"
  shows "\<exists>t'. strip_leading ws (t @ q) = t' @ q"
proof (induction "length t" arbitrary: t rule: less_induct)
  case less
  show ?case
  proof (cases "find (\<lambda>w. w \<noteq> [] \<and> prefix w (t @ q)) ws")
    case None
    then have "strip_leading ws (t @ q) = t @ q" by (subst strip_leading.simps) simp
    then show ?thesis by blast
  next
    case (Some w)
    then have w: "w \<in> set ws" "w \<noteq> []" "prefix w (t @ q)"
      by (auto simp: find_Some_iff)
    have step: "strip_leading ws (t @ q) = strip_leading ws (drop (length w) (t @ q))"
      using Some by (subst strip_leading.simps) simp
    have "prefix w t"
    proof -
      from w(3) consider "prefix w t" | us where "w = t @ us" "prefix us q"
        by (auto simp: prefix_append)
      then show ?thesis
      proof cases
        case 1
        then show ?thesis .
      next
        case 2
        show ?thesis
        proof (cases us)
          case Nil
          then show ?thesis using 2(1) by simp
        next
          case (Cons u us')
          then have "u \<in> set q" using 2(2) by (auto simp: prefix_def)
          moreover have "u \<in> set w" using 2(1) Cons by simp
          then have "u \<in> set (concat ws)" using w(1) by auto
          ultimately show ?thesis using assms by blast
        qed
      qed
    qed
    then obtain t2 where t2: "t = w @ t2" by (auto simp: prefix_def)
    then have "length t2 < length t" using w(2) by simp
    from less.hyps [OF this] obtain t' where "strip_leading ws (t2 @ q) = t' @ q" by blast
    moreover have "drop (length w) (t @ q) = t2 @ q" using t2 by simp
    ultimately show ?thesis using step by simp
  qed
qed

lemma prefix_trim:
  assumes p: "prefix p s" and ne: "p \<noteq> []"
    and clean: "\<forall>c \<in> set p. c \<notin> set (concat js_whitespace)"
  shows "prefix p (trim s)"
proof -
  obtain r where s: "s = p @ r" using p by (auto simp: prefix_def)
  obtain c p' where c: "p = c # p'" using ne by (cases p) auto
  have "c \<notin> set (concat js_whitespace)" using clean c by simp
  then have lead: "strip_leading js_whitespace s = s"
    using strip_leading_keeps [of c js_whitespace "p' @ r"] s c by simp
  have "set (concat (map rev js_whitespace)) = set (concat js_whitespace)" by auto
  then have "\<forall>c \<in> set (rev p). c \<notin> set (concat (map rev js_whitespace))"
    using clean by simp
  from strip_leading_tail [OF this, of "rev r"]
  obtain t' where "strip_leading (map rev js_whitespace) (rev r @ rev p) = t' @ rev p" by blast
  moreover have "trim s = rev (strip_leading (map rev js_whitespace) (rev s))"
    by (simp only: trim_def lead)
  ultimately have "trim s = p @ rev t'" by (simp add: s)
  then show ?thesis by simp
qed

lemma isUrl_prefix:
  "prefix ''http://'' kw \<or> prefix ''https://'' kw \<Longrightarrow> isUrl kw"
proof -
  assume "prefix ''http://'' kw \<or> prefix ''https://'' kw"
  then have "prefix ''http://'' (trim kw) \<or> prefix ''https://'' (trim kw)"
  proof
    assume "prefix ''http://'' kw"
    then have "prefix ''http://'' (trim kw)"
      by (rule prefix_trim) (simp_all add: js_whitespace_def)
    then show ?thesis ..
  next
    assume "prefix ''https://'' kw"
    then have "prefix ''https://'' (trim kw)"
      by (rule prefix_trim) (simp_all add: js_whitespace_def)
    then show ?thesis ..
  qed
  then show ?thesis by (simp add: isUrl_def startsWith_def)
qed

text \<open>
  C8, as amended. For every keyword: when it begins with the literal lower-case
  \<^verbatim>\<open>http://\<close> or \<^verbatim>\<open>https://\<close> the feed address is the keyword itself; when it does not
  begin with either, even once surrounding white space is trimmed, the feed address is
  the search template
  \<^verbatim>\<open>https://news.google.com/rss/search?q=<keyword>&hl=ja&gl=JP&ceid=JP:ja\<close> with the
  Japanese locale parameters fixed and the keyword URL-encoded: the encoded keyword
  consists of unreserved characters and percent escapes only, and determines the keyword.
\<close>

theorem getRssUrl_address:
  "(prefix ''http://'' kw \<or> prefix ''https://'' kw \<longrightarrow> getRssUrl kw = kw)
   \<and> (\<not> isUrl kw \<longrightarrow>
        getRssUrl kw = ''https://news.google.com/rss/search?q='' @ encodeURIComponent kw
                       @ ''&hl=ja&gl=JP&ceid=JP:ja'')
   \<and> (\<forall>c \<in> set (encodeURIComponent kw). uri_unreserved c \<or> c = CHR ''%'')
   \<and> (\<forall>kw'. encodeURIComponent kw' = encodeURIComponent kw \<longrightarrow> kw' = kw)"
proof (intro conjI ballI allI impI)
  assume "prefix ''http://'' kw \<or> prefix ''https://'' kw"
  then show "getRssUrl kw = kw" by (auto simp: getRssUrl_def startsWith_def)
next
  assume "\<not> isUrl kw"
  then have "\<not> (prefix ''http://'' kw \<or> prefix ''https://'' kw)"
    using isUrl_prefix by blast
  then show "getRssUrl kw = ''https://news.google.com/rss/search?q='' @ encodeURIComponent kw
                       @ ''&hl=ja&gl=JP&ceid=JP:ja''"
    by (simp add: getRssUrl_def startsWith_def)
next
  fix c assume "c \<in> set (encodeURIComponent kw)"
  then show "uri_unreserved c \<or> c = CHR ''%''" by (rule encodeURIComponent_chars)
next
  fix kw' assume "encodeURIComponent kw' = encodeURIComponent kw"
  then show "kw' = kw" by (rule encodeURIComponent_inj)
qed

theorem getRssUrl_address_witness:
  "prefix ''https://'' ''https://www.gizmodo.jp/index.xml''
   \<and> getRssUrl ''https://www.gizmodo.jp/index.xml'' = ''https://www.gizmodo.jp/index.xml''
   \<and> \<not> isUrl ''bus cuts''
   \<and> getRssUrl ''bus cuts'' = ''https://news.google.com/rss/search?q=bus%20cuts&hl=ja&gl=JP&ceid=JP:ja''
   \<and> \<not> isUrl [CHR 0xE3, CHR 0x83, CHR 0x90, CHR 0xE3, CHR 0x82, CHR 0xB9]
   \<and> getRssUrl [CHR 0xE3, CHR 0x83, CHR 0x90, CHR 0xE3, CHR 0x82, CHR 0xB9]
       = ''https://news.google.com/rss/search?q=%E3%83%90%E3%82%B9&hl=ja&gl=JP&ceid=JP:ja''"
proof -
  let ?bus = "[CHR 0xE3, CHR 0x83, CHR 0x90, CHR 0xE3, CHR 0x82, CHR 0xB9]"
  have url: "prefix ''http://'' ''https://www.gizmodo.jp/index.xml''
             \<or> prefix ''https://'' ''https://www.gizmodo.jp/index.xml''"
    by simp
  have kw: "\<not> isUrl ''bus cuts''" by code_simp
  have jp: "\<not> isUrl ?bus" by code_simp
  have e1: "encodeURIComponent ''bus cuts'' = ''bus%20cuts''" by code_simp
  have e2: "encodeURIComponent ?bus = ''%E3%83%90%E3%82%B9''" by code_simp
  have "getRssUrl ''https://www.gizmodo.jp/index.xml'' = ''https://www.gizmodo.jp/index.xml''"
    by (rule getRssUrl_address [THEN conjunct1, THEN mp, OF url])
  moreover have "getRssUrl ''bus cuts''
      = ''https://news.google.com/rss/search?q='' @ encodeURIComponent ''bus cuts''
        @ ''&hl=ja&gl=JP&ceid=JP:ja''"
    by (rule getRssUrl_address [THEN conjunct2, THEN conjunct1, THEN mp, OF kw])
  moreover have "getRssUrl ?bus
      = ''https://news.google.com/rss/search?q='' @ encodeURIComponent ?bus
        @ ''&hl=ja&gl=JP&ceid=JP:ja''"
    by (rule getRssUrl_address [THEN conjunct2, THEN conjunct1, THEN mp, OF jp])
  ultimately show ?thesis using kw jp by (simp add: e1 e2)
qed

theorem getRssUrl_upper_case_scheme_counterexample:
  "getRssUrl ''HTTPS://example.com/rss''
     = ''https://news.google.com/rss/search?q=HTTPS%3A%2F%2Fexample.com%2Frss&hl=ja&gl=JP&ceid=JP:ja''
   \<and> getRssUrl ''HTTPS://example.com/rss'' \<noteq> ''HTTPS://example.com/rss''
   \<and> \<not> isUrl ''HTTPS://example.com/rss''"
  by code_simp

text \<open>
  A keyword with a blank before \<^verbatim>\<open>https://\<close> is shown as a feed address by the editor
  and is searched for by \<^verbatim>\<open>getRssUrl\<close>.
\<close>

lemma getRssUrl_leading_blank:
  "isUrl '' https://example.com/rss''
   \<and> getRssUrl '' https://example.com/rss''
       = ''https://news.google.com/rss/search?q=%20https%3A%2F%2Fexample.com%2Frss&hl=ja&gl=JP&ceid=JP:ja''"
  by code_simp

section \<open>Title and source\<close>

lemma join_str_snoc: "ps \<noteq> [] \<Longrightarrow> join_str (ps @ [s]) sep = join_str ps sep @ sep @ s"
proof (induction ps sep rule: join_str.induct)
  case (1 sep)
  then show ?case by simp
next
  case (2 p sep)
  then show ?case by simp
next
  case (3 p q ps sep)
  then show ?case by simp
qed

lemma split_title_pieces:
  assumes inc: "includes_str t SEP"
  shows "\<exists>ps s. ps \<noteq> [] \<and> split_str t SEP = ps @ [s] \<and> t = join_str ps SEP @ SEP @ s
           \<and> \<not> includes_str s SEP"
proof -
  have ne: "SEP \<noteq> []" by (simp add: SEP_def)
  let ?parts = "split_from SEP [] t"
  have sp: "split_str t SEP = ?parts" using ne by (simp add: split_str_def)
  have nonempty: "?parts \<noteq> []" by (rule split_from_nonempty)
  have free: "\<not> includes_str p SEP" if "p \<in> set ?parts" for p
    using ne _ that by (rule split_from_pieces) simp
  have joined: "join_str ?parts SEP = t" using join_split_from [OF ne, of "[]" t] by simp
  from nonempty obtain ps s where parts: "split_from SEP [] t = ps @ [s]"
    by (cases "split_from SEP [] t" rule: rev_cases) auto
  have s_free: "\<not> includes_str s SEP" by (rule free) (simp add: parts)
  have "ps \<noteq> []"
  proof
    assume "ps = []"
    then have "join_str (split_from SEP [] t) SEP = s" by (simp add: parts)
    then have "t = s" using joined by simp
    then show False using inc s_free by simp
  qed
  moreover have "t = join_str ps SEP @ SEP @ s"
    using join_str_snoc [OF \<open>ps \<noteq> []\<close>, of s SEP] joined by (simp add: parts)
  ultimately show ?thesis using sp parts s_free by auto
qed

text \<open>
  C5, as amended. If the title contains the separator \<^verbatim>\<open>" - "\<close>, it is cut at the
  separator's occurrences found from left to right without overlap; the source is the
  piece behind the last of these cuts and contains no separator, and the title is the
  pieces before it rejoined with the separator, so that the upstream title is the new
  title, the separator and the source in a row. Whenever no two separators overlap (the
  title has no \<^verbatim>\<open>" - - "\<close>), that cut is the last occurrence of the separator. If the title
  contains no separator, the title is kept and the source is the author field, else the
  feed-level title, else \<^verbatim>\<open>"Unknown Source"\<close>. The article's source is this source with
  surrounding white space trimmed: it is a part of it that no white-space sequence begins
  or ends.
\<close>

theorem title_source_split:
  "(includes_str (item_title item) SEP \<longrightarrow>
      (\<exists>ps s. ps \<noteq> [] \<and> split_str (item_title item) SEP = ps @ [s]
          \<and> title_source ft item = (join_str ps SEP, s)
          \<and> item_title item = join_str ps SEP @ SEP @ s
          \<and> \<not> includes_str s SEP))
   \<and> (\<not> includes_str (item_title item) '' - - '' \<longrightarrow>
        (\<forall>t s. item_title item = t @ SEP @ s \<and> \<not> includes_str s SEP \<longrightarrow>
           title_source ft item = (t, s)))
   \<and> (\<not> includes_str (item_title item) SEP \<longrightarrow>
        title_source ft item =
          (item_title item, or_else (item_author item) (or_else ft ''Unknown Source'')))
   \<and> (\<forall>a. normalize_item P tabId ft i item = Some a \<longrightarrow>
        title a = fst (title_source ft item) \<and> source a = trim (snd (title_source ft item))
        \<and> (\<forall>w \<in> set js_whitespace. \<not> prefix w (source a) \<and> \<not> suffix w (source a))
        \<and> (\<exists>l r. snd (title_source ft item) = l @ source a @ r))"
proof (intro conjI impI allI)
  assume inc: "includes_str (item_title item) SEP"
  from split_title_pieces [OF inc] obtain ps s where
    ps: "ps \<noteq> []" "split_str (item_title item) SEP = ps @ [s]"
      "item_title item = join_str ps SEP @ SEP @ s" "\<not> includes_str s SEP"
    by blast
  have "title_source ft item = (join_str ps SEP, s)"
    using inc ps(2) by (simp add: title_source_def Let_def)
  then show "\<exists>ps s. ps \<noteq> [] \<and> split_str (item_title item) SEP = ps @ [s]
          \<and> title_source ft item = (join_str ps SEP, s)
          \<and> item_title item = join_str ps SEP @ SEP @ s
          \<and> \<not> includes_str s SEP"
    using ps by blast
next
  fix t s
  assume no: "\<not> includes_str (item_title item) '' - - ''"
    and ts: "item_title item = t @ SEP @ s \<and> \<not> includes_str s SEP"
  have inc: "includes_str (item_title item) SEP"
    using ts unfolding includes_str_iff by blast
  have ne: "SEP \<noteq> []" by (simp add: SEP_def)
  from split_last_occurrence [of t s "[]"] no ts
  obtain ps where ps: "ps \<noteq> []" "split_from SEP [] (t @ SEP @ s) = ps @ [s]"
    "join_str ps SEP = t" by auto
  have "split_str (item_title item) SEP = ps @ [s]"
    using ps(2) ts ne by (simp add: split_str_def)
  then show "title_source ft item = (t, s)"
    using inc ps(3) by (simp add: title_source_def Let_def)
next
  assume "\<not> includes_str (item_title item) SEP"
  then show "title_source ft item =
          (item_title item, or_else (item_author item) (or_else ft ''Unknown Source''))"
    by (simp add: title_source_def Let_def)
next
  fix a assume "normalize_item P tabId ft i item = Some a"
  then show "title a = fst (title_source ft item)"
    by (auto simp: normalize_item_def split: option.splits)
next
  fix a assume "normalize_item P tabId ft i item = Some a"
  then show "source a = trim (snd (title_source ft item))"
    by (auto simp: normalize_item_def split: option.splits)
next
  fix a assume "normalize_item P tabId ft i item = Some a"
  then have "source a = trim (snd (title_source ft item))"
    by (auto simp: normalize_item_def split: option.splits)
  then show "\<forall>w \<in> set js_whitespace. \<not> prefix w (source a) \<and> \<not> suffix w (source a)"
    using trim_no_leading trim_no_trailing by simp
next
  fix a assume "normalize_item P tabId ft i item = Some a"
  then have "source a = trim (snd (title_source ft item))"
    by (auto simp: normalize_item_def split: option.splits)
  then show "\<exists>l r. snd (title_source ft item) = l @ source a @ r"
    using trim_sublist [of "snd (title_source ft item)"] by simp
qed

lemmas evaluation_defs =
  includes_str.simps split_str_def split_from.simps SEP_def trim_def js_whitespace_def
  strip_leading.simps title_source_def or_else_def truthy_def

theorem title_source_split_witness:
  "includes_str (item_title ex_item2) SEP
   \<and> \<not> includes_str (item_title ex_item2) '' - - ''
   \<and> item_title ex_item2 = ''Local bus cuts'' @ SEP @ ''Example Times''
   \<and> title_source (Some ''Example Feed'') ex_item2 = (''Local bus cuts'', ''Example Times'')
   \<and> \<not> includes_str (item_title ex_item1) SEP
   \<and> title_source (Some ''Example Feed'') ex_item1 = (''Timetable change'', ''Jane Doe'')
   \<and> map_option (\<lambda>a. (title a, source a))
        (normalize_item ex_platform ''tab-1'' (Some ''Example Feed'') 1 ex_item2)
       = Some (''Local bus cuts'', ''Example Times'')"
proof -
  have inc: "includes_str (item_title ex_item2) SEP"
    by (simp add: ex_item2_def SEP_def)
  have no: "\<not> includes_str (item_title ex_item2) '' - - ''"
    by (simp add: ex_item2_def)
  have cut: "item_title ex_item2 = ''Local bus cuts'' @ SEP @ ''Example Times''
             \<and> \<not> includes_str ''Example Times'' SEP"
    by (simp add: ex_item2_def SEP_def)
  have plain: "\<not> includes_str (item_title ex_item1) SEP"
    by (simp add: ex_item1_def SEP_def)
  have norm: "normalize_item ex_platform ''tab-1'' (Some ''Example Feed'') 1 ex_item2 \<noteq> None"
    by (simp add: normalize_item_def ex_platform_def ex_item2_def)
  then obtain a where a: "normalize_item ex_platform ''tab-1'' (Some ''Example Feed'') 1 ex_item2 = Some a"
    by blast
  note thm2 = title_source_split [of ex_item2 "Some ''Example Feed''" ex_platform "''tab-1''" 1]
  note thm1 = title_source_split [of ex_item1 "Some ''Example Feed''" ex_platform "''tab-1''" 0]
  have ts2: "title_source (Some ''Example Feed'') ex_item2 = (''Local bus cuts'', ''Example Times'')"
    using thm2 no cut by blast
  have ts1: "title_source (Some ''Example Feed'') ex_item1 = (''Timetable change'', ''Jane Doe'')"
    using thm1 plain by (simp add: ex_item1_def or_else_def)
  have "title a = ''Local bus cuts'' \<and> source a = trim ''Example Times''"
    using thm2 a ts2 by simp
  moreover have "trim ''Example Times'' = ''Example Times''"
    by (simp add: trim_def js_whitespace_def strip_leading.simps)
  ultimately show ?thesis using inc no cut plain ts1 ts2 a by simp
qed

theorem title_source_last_occurrence_counterexample:
  "item_title ex_item3 = ''A -'' @ SEP @ ''B''
   \<and> \<not> includes_str ''B'' SEP
   \<and> title_source None ex_item3 = (''A'', ''- B'')
   \<and> title_source None ex_item3 \<noteq> (''A -'', ''B'')
   \<and> map_option (\<lambda>a. (title a, source a)) (normalize_item ex_platform ''tab-1'' None 2 ex_item3)
       = Some (''A'', ''- B'')"
  by (simp add: evaluation_defs ex_item3_def ex_platform_def normalize_item_def)

section \<open>Properties of the fetch\<close>

subsection \<open>The stable sort\<close>

lemma insert_by_insort_key:
  "(\<And>y. cmp x y \<le> 0 \<longleftrightarrow> f x \<le> f y) \<Longrightarrow> insert_by cmp x ys = insort_key f x ys"
  by (induction ys) simp_all

lemma sort_by_pubDate:
  "sort_by by_pubDate_desc as = sort_key (\<lambda>a. - pubDate a) as"
proof (induction as)
  case Nil
  then show ?case by (simp add: sort_by_def)
next
  case (Cons a as)
  have "insert_by by_pubDate_desc a (sort_by by_pubDate_desc as)
        = insort_key (\<lambda>a. - pubDate a) a (sort_by by_pubDate_desc as)"
    by (rule insert_by_insort_key) (simp add: by_pubDate_desc_def)
  then show ?case using Cons.IH by (simp add: sort_by_def)
qed

lemma sort_by_sorted:
  "sorted_wrt (\<lambda>a b. pubDate b \<le> pubDate a) (sort_by by_pubDate_desc as)"
proof -
  have "sorted (map (\<lambda>a. - pubDate a) (sort_key (\<lambda>a. - pubDate a) as))"
    by (rule sorted_sort_key)
  then show ?thesis by (simp add: sort_by_pubDate sorted_map)
qed

lemma sort_by_mset: "mset (sort_by by_pubDate_desc as) = mset as"
  by (simp add: sort_by_pubDate)

lemma sort_by_stable:
  "filter (\<lambda>a. pubDate a = t) (sort_by by_pubDate_desc as) = filter (\<lambda>a. pubDate a = t) as"
proof -
  have "filter (\<lambda>a. - pubDate a = - t) (sort_key (\<lambda>a. - pubDate a) as)
        = filter (\<lambda>a. - pubDate a = - t) as"
    by (rule sort_key_stable)
  then show ?thesis by (simp add: sort_by_pubDate)
qed

lemma slice_from_start: "slice xs 0 n = take n xs"
  by (simp add: slice_def)

subsection \<open>Normalising the items\<close>

lemma those_Some:
  "those xs = Some ys \<Longrightarrow> length ys = length xs \<and> (\<forall>i < length xs. xs ! i = Some (ys ! i))"
proof (induction xs arbitrary: ys)
  case Nil
  then show ?case by simp
next
  case (Cons x xs)
  from Cons.prems obtain y ys' where x: "x = Some y" and r: "those xs = Some ys'"
    and ys: "ys = y # ys'"
    by (auto split: option.splits)
  from Cons.IH [OF r] have len: "length ys' = length xs"
    and nth: "\<forall>i < length xs. xs ! i = Some (ys' ! i)" by simp_all
  show ?case
  proof (intro conjI allI impI)
    show "length ys = length (x # xs)" using len ys by simp
  next
    fix i assume "i < length (x # xs)"
    then show "(x # xs) ! i = Some (ys ! i)"
      using x ys nth by (cases i) simp_all
  qed
qed

lemma normalize_items_Some:
  assumes "normalize_items P tabId d = Some as"
  shows "length as = length (items d)"
    and "i < length (items d) \<Longrightarrow>
         normalize_item P tabId (feed_title d) i (items d ! i) = Some (as ! i)"
proof -
  let ?f = "\<lambda>(index, item). normalize_item P tabId (feed_title d) index item"
  from those_Some [OF assms [unfolded normalize_items_def]]
  have len: "length as = length (map ?f (enumerate 0 (items d)))"
    and nth: "\<forall>i < length (map ?f (enumerate 0 (items d))).
                map ?f (enumerate 0 (items d)) ! i = Some (as ! i)"
    by simp_all
  show "length as = length (items d)" using len by simp
  show "normalize_item P tabId (feed_title d) i (items d ! i) = Some (as ! i)"
    if "i < length (items d)"
    using nth that by (simp add: nth_enumerate_eq)
qed

subsection \<open>The paths of \<^verbatim>\<open>fetchNews\<close>\<close>

lemma fetchNews_no_tab:
  "find (\<lambda>t. tab_id t = tabId) ts = None \<Longrightarrow>
   fetchNews E P tabId ts s = s\<lparr>loading := False, error := None\<rparr>"
  by (simp add: fetchNews_def)

lemma fetchNews_hit:
  "find (\<lambda>t. tab_id t = tabId) ts = Some tab \<Longrightarrow> newsCache s tabId = Some c \<Longrightarrow>
   now_check E - timestamp c < CACHE_DURATION \<Longrightarrow>
   fetchNews E P tabId ts s = s\<lparr>loading := False, error := None, newsList := data c\<rparr>"
  by (simp add: fetchNews_def)

lemma fetchNews_miss:
  "find (\<lambda>t. tab_id t = tabId) ts = Some tab \<Longrightarrow>
   (\<And>c. newsCache s tabId = Some c \<Longrightarrow> \<not> now_check E - timestamp c < CACHE_DURATION) \<Longrightarrow>
   fetchNews E P tabId ts s = fetch_remote E P tabId tab (s\<lparr>loading := True, error := None\<rparr>)"
  by (cases "newsCache s tabId") (simp_all add: fetchNews_def)

lemma fetch_remote_success:
  "mappedNews P tabId (fetch E (request_url (keyword tab))) = Some news \<Longrightarrow>
   fetch_remote E P tabId tab s1 =
     s1\<lparr>requests := requests s1 @ [request_url (keyword tab)],
        newsCache := (newsCache s1)(tabId \<mapsto> \<lparr>data = news, timestamp = now_store E\<rparr>),
        newsList := news, loading := False\<rparr>"
  by (simp add: fetch_remote_def Let_def)

lemma fetch_remote_fallback:
  "mappedNews P tabId (fetch E (request_url (keyword tab))) = None \<Longrightarrow>
   newsCache s1 tabId = Some c \<Longrightarrow>
   fetch_remote E P tabId tab s1 =
     s1\<lparr>requests := requests s1 @ [request_url (keyword tab)],
        newsList := data c, error := Some STALE_MESSAGE, loading := False\<rparr>"
  by (simp add: fetch_remote_def Let_def)

lemma fetch_remote_no_data:
  "mappedNews P tabId (fetch E (request_url (keyword tab))) = None \<Longrightarrow>
   newsCache s1 tabId = None \<Longrightarrow>
   fetch_remote E P tabId tab s1 =
     s1\<lparr>requests := requests s1 @ [request_url (keyword tab)],
        error := Some FAILED_MESSAGE, loading := False\<rparr>"
  by (simp add: fetch_remote_def Let_def)

lemma mappedNews_ok:
  "status d = ''ok'' \<Longrightarrow> normalize_items P tabId d = Some as \<Longrightarrow>
   mappedNews P tabId (Response True (Some d)) = Some (slice (sort_by by_pubDate_desc as) 0 12)"
  by (simp add: mappedNews_def)

subsection \<open>Order and size of the fetched list\<close>

text \<open>
  C1. When \<^verbatim>\<open>fetchNews\<close> goes to the network for a tab (the tab is configured and the
  cache holds no fresh entry for it) and the answer is a well-formed feed whose items all
  normalise to the articles \<open>as\<close>, in upstream order, then the list it returns is \<open>as\<close>
  sorted by the comparator and cut to its first 12 entries: it is non-increasing in
  \<open>pubDate\<close>; for every instant, its articles of that instant are the first ones of \<open>as\<close>
  with that instant, in upstream order (ties keep the upstream order); it has
  \<open>min 12 n\<close> entries for a feed of \<open>n\<close> items, so exactly 12 for a feed of more than 12;
  and no article left out is more recent than an article returned.
\<close>

theorem fetchNews_sorted_truncated:
  fixes E :: env and P :: platform and tabId :: string and ts :: "TabConfig list"
    and s :: app_state and out :: "NewsArticle list"
  defines "out \<equiv> newsList (fetchNews E P tabId ts s)"
  assumes tab: "find (\<lambda>t. tab_id t = tabId) ts = Some tab"
    and miss: "\<forall>c. newsCache s tabId = Some c \<longrightarrow> \<not> now_check E - timestamp c < CACHE_DURATION"
    and resp: "fetch E (request_url (keyword tab)) = Response True (Some d)"
    and ok: "status d = ''ok''"
    and norm: "normalize_items P tabId d = Some as"
  shows "length as = length (items d)
     \<and> (\<forall>i < length (items d).
           normalize_item P tabId (feed_title d) i (items d ! i) = Some (as ! i))
     \<and> out = slice (sort_by by_pubDate_desc as) 0 12
     \<and> sorted_wrt (\<lambda>a b. pubDate b \<le> pubDate a) out
     \<and> (\<forall>t. prefix (filter (\<lambda>a. pubDate a = t) out) (filter (\<lambda>a. pubDate a = t) as))
     \<and> length out = min 12 (length (items d))
     \<and> (12 < length (items d) \<longrightarrow> length out = 12)
     \<and> (\<exists>rest. mset as = mset out + mset rest
            \<and> (\<forall>a \<in> set out. \<forall>b \<in> set rest. pubDate b \<le> pubDate a))"
proof -
  let ?sorted = "sort_by by_pubDate_desc as"
  have len: "length as = length (items d)"
    by (rule normalize_items_Some(1) [OF norm])
  have nth: "\<forall>i < length (items d).
               normalize_item P tabId (feed_title d) i (items d ! i) = Some (as ! i)"
    using normalize_items_Some(2) [OF norm] by blast
  have mapped: "mappedNews P tabId (fetch E (request_url (keyword tab))) = Some (slice ?sorted 0 12)"
    unfolding resp by (rule mappedNews_ok [OF ok norm])
  have "fetchNews E P tabId ts s = fetch_remote E P tabId tab (s\<lparr>loading := True, error := None\<rparr>)"
    using tab miss by (intro fetchNews_miss) auto
  then have out: "out = take 12 ?sorted"
    unfolding out_def by (simp add: fetch_remote_success [OF mapped] slice_from_start)
  have srt: "sorted_wrt (\<lambda>a b. pubDate b \<le> pubDate a) ?sorted" by (rule sort_by_sorted)
  have sorted_out: "sorted_wrt (\<lambda>a b. pubDate b \<le> pubDate a) out"
    unfolding out by (rule sorted_wrt_take [OF srt])
  have stable: "prefix (filter (\<lambda>a. pubDate a = t) out) (filter (\<lambda>a. pubDate a = t) as)" for t
  proof -
    have "prefix (filter (\<lambda>a. pubDate a = t) (take 12 ?sorted)) (filter (\<lambda>a. pubDate a = t) ?sorted)"
      by (rule filter_mono_prefix) (rule take_is_prefix)
    then show ?thesis unfolding out by (simp only: sort_by_stable)
  qed
  have length_sorted: "length ?sorted = length as"
    using arg_cong [OF sort_by_mset [of as], of size] by simp
  have length_out: "length out = min 12 (length (items d))"
    unfolding out using length_sorted len by simp
  have split: "?sorted = out @ drop 12 ?sorted" unfolding out by simp
  have parts: "mset as = mset out + mset (drop 12 ?sorted)"
    using arg_cong [OF split, of mset] by (simp add: sort_by_mset)
  have "sorted_wrt (\<lambda>a b. pubDate b \<le> pubDate a) (out @ drop 12 ?sorted)"
    using srt split by simp
  then have recent: "\<forall>a \<in> set out. \<forall>b \<in> set (drop 12 ?sorted). pubDate b \<le> pubDate a"
    by (simp add: sorted_wrt_append)
  show ?thesis
    using len nth out sorted_out stable length_out parts recent
    by (auto simp: slice_from_start)
qed

theorem fetchNews_sorted_truncated_witness:
  "map article_id (newsList (fetchNews ex_env_ok3 ex_platform ''tab-1'' ex_tabs ex_state_cached))
     = [''guid-2'', ''tab-1-0-2024-01-01 09:00:00'', ''guid-3'']
   \<and> sorted_wrt (\<lambda>a b. pubDate b \<le> pubDate a)
        (newsList (fetchNews ex_env_ok3 ex_platform ''tab-1'' ex_tabs ex_state_cached))
   \<and> length (items ex_data13) = 13
   \<and> length (newsList (fetchNews ex_env_ok13 ex_platform ''tab-1'' ex_tabs ex_state_cached)) = 12
   \<and> map article_id
        (take 1 (newsList (fetchNews ex_env_ok13 ex_platform ''tab-1'' ex_tabs ex_state_cached)))
      = [''guid-2'']"
proof -
  have tab: "find (\<lambda>t. tab_id t = ''tab-1'') ex_tabs = Some ex_tab1"
    by (simp add: ex_tabs_def ex_tab1_def)
  have miss3: "\<forall>c. newsCache ex_state_cached ''tab-1'' = Some c \<longrightarrow>
                 \<not> now_check ex_env_ok3 - timestamp c < CACHE_DURATION"
    by (simp add: ex_state_cached_def ex_state_def ex_env_ok3_def CACHE_DURATION_def)
  have miss13: "\<forall>c. newsCache ex_state_cached ''tab-1'' = Some c \<longrightarrow>
                 \<not> now_check ex_env_ok13 - timestamp c < CACHE_DURATION"
    by (simp add: ex_state_cached_def ex_state_def ex_env_ok13_def CACHE_DURATION_def)
  have resp3: "fetch ex_env_ok3 (request_url (keyword ex_tab1)) = Response True (Some ex_data3)"
    by (simp add: ex_env_ok3_def)
  have resp13: "fetch ex_env_ok13 (request_url (keyword ex_tab1)) = Response True (Some ex_data13)"
    by (simp add: ex_env_ok13_def)
  have ok3: "status ex_data3 = ''ok''" by (simp add: ex_data3_def)
  have ok13: "status ex_data13 = ''ok''" by (simp add: ex_data13_def)
  have ids3: "map_option (\<lambda>as. map article_id (slice (sort_by by_pubDate_desc as) 0 12))
                (normalize_items ex_platform ''tab-1'' ex_data3)
        = Some [''guid-2'', ''tab-1-0-2024-01-01 09:00:00'', ''guid-3'']"
    by code_simp
  then obtain as3 where norm3: "normalize_items ex_platform ''tab-1'' ex_data3 = Some as3"
    and as3: "map article_id (slice (sort_by by_pubDate_desc as3) 0 12)
        = [''guid-2'', ''tab-1-0-2024-01-01 09:00:00'', ''guid-3'']"
    by auto
  note t3 = fetchNews_sorted_truncated [OF tab miss3 resp3 ok3 norm3]
  have ids13: "map_option (\<lambda>as. map article_id (take 1 (slice (sort_by by_pubDate_desc as) 0 12)))
                (normalize_items ex_platform ''tab-1'' ex_data13)
        = Some [''guid-2'']"
    by code_simp
  then obtain as13 where norm13: "normalize_items ex_platform ''tab-1'' ex_data13 = Some as13"
    and as13: "map article_id (take 1 (slice (sort_by by_pubDate_desc as13) 0 12)) = [''guid-2'']"
    by auto
  note t13 = fetchNews_sorted_truncated [OF tab miss13 resp13 ok13 norm13]
  have len13: "length (items ex_data13) = 13" by (simp add: ex_data13_def)
  let ?out3 = "newsList (fetchNews ex_env_ok3 ex_platform ''tab-1'' ex_tabs ex_state_cached)"
  let ?out13 = "newsList (fetchNews ex_env_ok13 ex_platform ''tab-1'' ex_tabs ex_state_cached)"
  from t13 have "length ?out13 = min 12 (length (items ex_data13))" by blast
  then have "length ?out13 = 12" by (simp add: len13)
  moreover from t13 have "?out13 = slice (sort_by by_pubDate_desc as13) 0 12" by blast
  then have "map article_id (take 1 ?out13) = [''guid-2'']" by (simp only: as13)
  moreover from t3 have "?out3 = slice (sort_by by_pubDate_desc as3) 0 12" by blast
  then have "map article_id ?out3 = [''guid-2'', ''tab-1-0-2024-01-01 09:00:00'', ''guid-3'']"
    by (simp only: as3)
  moreover from t3 have "sorted_wrt (\<lambda>a b. pubDate b \<le> pubDate a) ?out3" by blast
  ultimately show ?thesis using len13 by blast
qed

subsection \<open>What a fetch does to the cache, the list and the request log\<close>

lemma fetchNews_cases:
  obtains
    (no_tab) "find (\<lambda>t. tab_id t = tabId) ts = None"
      "fetchNews E P tabId ts s = s\<lparr>loading := False, error := None\<rparr>"
  | (hit) tab c where "find (\<lambda>t. tab_id t = tabId) ts = Some tab"
      "newsCache s tabId = Some c" "now_check E - timestamp c < CACHE_DURATION"
      "fetchNews E P tabId ts s = s\<lparr>loading := False, error := None, newsList := data c\<rparr>"
  | (success) tab news where "find (\<lambda>t. tab_id t = tabId) ts = Some tab"
      "\<forall>c. newsCache s tabId = Some c \<longrightarrow> \<not> now_check E - timestamp c < CACHE_DURATION"
      "mappedNews P tabId (fetch E (request_url (keyword tab))) = Some news"
      "fetchNews E P tabId ts s =
         s\<lparr>loading := False, error := None,
           requests := requests s @ [request_url (keyword tab)],
           newsCache := (newsCache s)(tabId \<mapsto> \<lparr>data = news, timestamp = now_store E\<rparr>),
           newsList := news\<rparr>"
  | (fallback) tab c where "find (\<lambda>t. tab_id t = tabId) ts = Some tab"
      "newsCache s tabId = Some c" "\<not> now_check E - timestamp c < CACHE_DURATION"
      "mappedNews P tabId (fetch E (request_url (keyword tab))) = None"
      "fetchNews E P tabId ts s =
         s\<lparr>loading := False, error := Some STALE_MESSAGE,
           requests := requests s @ [request_url (keyword tab)], newsList := data c\<rparr>"
  | (no_data) tab where "find (\<lambda>t. tab_id t = tabId) ts = Some tab"
      "newsCache s tabId = None"
      "mappedNews P tabId (fetch E (request_url (keyword tab))) = None"
      "fetchNews E P tabId ts s =
         s\<lparr>loading := False, error := Some FAILED_MESSAGE,
           requests := requests s @ [request_url (keyword tab)]\<rparr>"
proof (cases "find (\<lambda>t. tab_id t = tabId) ts")
  case None
  then show ?thesis using no_tab fetchNews_no_tab [OF None] by simp
next
  case (Some tab)
  note tab = this
  show ?thesis
  proof (cases "\<exists>c. newsCache s tabId = Some c \<and> now_check E - timestamp c < CACHE_DURATION")
    case True
    then obtain c where c: "newsCache s tabId = Some c"
      "now_check E - timestamp c < CACHE_DURATION" by blast
    show ?thesis using hit [OF tab c] fetchNews_hit [OF tab c] by simp
  next
    case False
    then have miss: "\<forall>c. newsCache s tabId = Some c \<longrightarrow>
                       \<not> now_check E - timestamp c < CACHE_DURATION" by blast
    then have remote: "fetchNews E P tabId ts s
                = fetch_remote E P tabId tab (s\<lparr>loading := True, error := None\<rparr>)"
      using tab by (intro fetchNews_miss) auto
    show ?thesis
    proof (cases "mappedNews P tabId (fetch E (request_url (keyword tab)))")
      case (Some news)
      show ?thesis
        by (rule success [OF tab miss Some]) (simp add: remote fetch_remote_success [OF Some])
    next
      case None
      note fail = this
      show ?thesis
      proof (cases "newsCache s tabId")
        case None
        show ?thesis
          by (rule no_data [OF tab None fail])
             (simp add: remote fetch_remote_no_data [OF fail] None)
      next
        case (Some c)
        then have stale: "\<not> now_check E - timestamp c < CACHE_DURATION" using miss by blast
        show ?thesis
          by (rule fallback [OF tab Some stale fail])
             (simp add: remote fetch_remote_fallback [OF fail, of _ c] Some)
      qed
    qed
  qed
qed

lemma fetchNews_cache:
  "newsCache (fetchNews E P tabId ts s) = newsCache s
   \<or> (\<exists>tab news. find (\<lambda>t. tab_id t = tabId) ts = Some tab
         \<and> mappedNews P tabId (fetch E (request_url (keyword tab))) = Some news
         \<and> newsCache (fetchNews E P tabId ts s)
             = (newsCache s)(tabId \<mapsto> \<lparr>data = news, timestamp = now_store E\<rparr>))"
  by (cases rule: fetchNews_cases [of tabId ts E P s]) auto

lemma fetchNews_failure_cache:
  assumes "find (\<lambda>t. tab_id t = tabId) ts = Some tab"
    and "mappedNews P tabId (fetch E (request_url (keyword tab))) = None"
  shows "newsCache (fetchNews E P tabId ts s) = newsCache s"
  using assms by (cases rule: fetchNews_cases [of tabId ts E P s]) auto

lemma fetchNews_list_cached:
  assumes "find (\<lambda>t. tab_id t = tabId) ts = Some tab"
    and "newsCache (fetchNews E P tabId ts s) tabId = Some c"
  shows "newsList (fetchNews E P tabId ts s) = data c"
  using assms by (cases rule: fetchNews_cases [of tabId ts E P s]) auto

lemma fetchNews_frame:
  "readIds (fetchNews E P tabId ts s) = readIds s"
  "hiddenSources (fetchNews E P tabId ts s) = hiddenSources s"
  "tabs (fetchNews E P tabId ts s) = tabs s"
  "maxTabs (fetchNews E P tabId ts s) = maxTabs s"
  "activeTabId (fetchNews E P tabId ts s) = activeTabId s"
  "loading (fetchNews E P tabId ts s) = False"
  by (cases rule: fetchNews_cases [of tabId ts E P s]; simp)+

lemma mappedNews_failures:
  "mappedNews P tabId Rejected = None"
  "mappedNews P tabId (Response False b) = None"
  "mappedNews P tabId (Response True None) = None"
  "status d \<noteq> ''ok'' \<Longrightarrow> mappedNews P tabId (Response True (Some d)) = None"
  "normalize_items P tabId d = None \<Longrightarrow> mappedNews P tabId (Response True (Some d)) = None"
  by (simp_all add: mappedNews_def)

lemma messages_nonempty: "STALE_MESSAGE \<noteq> []" "FAILED_MESSAGE \<noteq> []"
  by (simp_all add: STALE_MESSAGE_def FAILED_MESSAGE_def)

lemma fetchNews_cached_tabs:
  assumes old: "\<And>t. newsCache s t \<noteq> None \<Longrightarrow> find (\<lambda>x. tab_id x = t) ts \<noteq> None"
    and new: "newsCache (fetchNews E P tabId ts s) t \<noteq> None"
  shows "find (\<lambda>x. tab_id x = t) ts \<noteq> None"
proof -
  from fetchNews_cache [of E P tabId ts s]
  consider (same) "newsCache (fetchNews E P tabId ts s) = newsCache s"
    | (stored) tab news where "find (\<lambda>t. tab_id t = tabId) ts = Some tab"
        "newsCache (fetchNews E P tabId ts s)
           = (newsCache s)(tabId \<mapsto> \<lparr>data = news, timestamp = now_store E\<rparr>)"
    by blast
  then show ?thesis
  proof cases
    case same
    then have "newsCache s t \<noteq> None" using new by simp
    then show ?thesis by (rule old)
  next
    case stored
    show ?thesis
    proof (cases "t = tabId")
      case True
      then show ?thesis using stored(1) by simp
    next
      case False
      then have "newsCache s t \<noteq> None" using new stored(2) by simp
      then show ?thesis by (rule old)
    qed
  qed
qed

lemma dispatch_cached_tabs:
  assumes inv: "cached_tabs_configured s"
  shows "cached_tabs_configured (dispatch E P a s)"
proof -
  have old: "find (\<lambda>x. tab_id x = t) (tabs s) \<noteq> None" if "newsCache s t \<noteq> None" for t
    using inv that unfolding cached_tabs_configured_def by blast
  show ?thesis
  proof (cases a)
    case (TabChange u)
    show ?thesis
    proof (cases "u = activeTabId s")
      case True
      then show ?thesis using inv TabChange by simp
    next
      case False
      have "find (\<lambda>x. tab_id x = t) (tabs s) \<noteq> None"
        if "newsCache (fetchNews E P u (tabs s) (s\<lparr>activeTabId := u\<rparr>)) t \<noteq> None" for t
        using _ that by (rule fetchNews_cached_tabs) (use old in auto)
      then show ?thesis
        unfolding cached_tabs_configured_def using False TabChange
        by (simp add: fetchNews_frame(3))
    qed
  next
    case ForceRefresh
    have "find (\<lambda>x. tab_id x = t) (tabs s) \<noteq> None"
      if "newsCache (fetchNews E P (activeTabId s) (tabs s)
                       (s\<lparr>newsCache := (newsCache s)(activeTabId s := None)\<rparr>)) t \<noteq> None" for t
      using _ that by (rule fetchNews_cached_tabs) (use old in \<open>auto split: if_splits\<close>)
    then show ?thesis
      unfolding cached_tabs_configured_def using ForceRefresh
      by (simp add: forceRefresh_def fetchNews_frame(3))
  next
    case (SaveSettings newTabs n)
    have "find (\<lambda>x. tab_id x = t) newTabs \<noteq> None"
      if "newsCache (fetchNews E P (activeTabId s) newTabs
                       (s\<lparr>tabs := newTabs, maxTabs := n, newsCache := Map.empty,
                          newsList := []\<rparr>)) t \<noteq> None" for t
      using _ that by (rule fetchNews_cached_tabs) simp
    then show ?thesis
      unfolding cached_tabs_configured_def using SaveSettings
      by (simp add: handleSaveSettings_def fetchNews_frame(3))
  qed (use inv in \<open>simp_all add: cached_tabs_configured_def resetHiddenSources_def
         markAsRead_def hideSource_def unhideSource_def\<close>)
qed

subsection \<open>Cache hit\<close>

text \<open>
  C2. For every tab id: if the cache holds an entry for the tab and the time since its
  timestamp is strictly less than \<open>CACHE_DURATION\<close> (5 minutes), then \<^verbatim>\<open>fetchNews\<close>
  returns exactly the cached list, requests nothing from the network and leaves the cache
  as it is. This holds for a call on the current tab list in every state in which the
  cached tabs are configured tabs (all states the user's actions reach), and for a call
  on any tab list that has the tab. Hence a second fetch within 5 minutes of the
  timestamp of the entry that a first fetch left for the tab returns the list of the
  first and requests nothing.
\<close>

theorem fetchNews_cache_hit:
  "CACHE_DURATION = 5 * 60 * 1000
   \<and> (\<forall>c. cached_tabs_configured s \<and> newsCache s tabId = Some c
          \<and> now_check E - timestamp c < CACHE_DURATION \<longrightarrow>
            newsList (fetchNews E P tabId (tabs s) s) = data c
          \<and> requests (fetchNews E P tabId (tabs s) s) = requests s
          \<and> newsCache (fetchNews E P tabId (tabs s) s) = newsCache s
          \<and> error (fetchNews E P tabId (tabs s) s) = None)
   \<and> (\<forall>tab c. find (\<lambda>t. tab_id t = tabId) ts = Some tab \<and> newsCache s tabId = Some c
          \<and> now_check E - timestamp c < CACHE_DURATION \<longrightarrow>
            newsList (fetchNews E P tabId ts s) = data c
          \<and> requests (fetchNews E P tabId ts s) = requests s
          \<and> newsCache (fetchNews E P tabId ts s) = newsCache s
          \<and> error (fetchNews E P tabId ts s) = None)
   \<and> (\<forall>tab c1 E2 P2.
            find (\<lambda>t. tab_id t = tabId) ts = Some tab
            \<and> newsCache (fetchNews E P tabId ts s) tabId = Some c1
            \<and> now_check E2 - timestamp c1 < CACHE_DURATION \<longrightarrow>
            newsList (fetchNews E2 P2 tabId ts (fetchNews E P tabId ts s))
              = newsList (fetchNews E P tabId ts s)
          \<and> requests (fetchNews E2 P2 tabId ts (fetchNews E P tabId ts s))
              = requests (fetchNews E P tabId ts s))"
proof -
  have hit: "newsList (fetchNews E' P' tabId ts' s') = data c
          \<and> requests (fetchNews E' P' tabId ts' s') = requests s'
          \<and> newsCache (fetchNews E' P' tabId ts' s') = newsCache s'
          \<and> error (fetchNews E' P' tabId ts' s') = None"
    if "find (\<lambda>t. tab_id t = tabId) ts' = Some tab" "newsCache s' tabId = Some c"
      "now_check E' - timestamp c < CACHE_DURATION"
    for E' P' ts' s' tab c
    by (simp add: fetchNews_hit [OF that])
  have current: "newsList (fetchNews E P tabId (tabs s) s) = data c
          \<and> requests (fetchNews E P tabId (tabs s) s) = requests s
          \<and> newsCache (fetchNews E P tabId (tabs s) s) = newsCache s
          \<and> error (fetchNews E P tabId (tabs s) s) = None"
    if inv: "cached_tabs_configured s" and c: "newsCache s tabId = Some c"
      and fresh: "now_check E - timestamp c < CACHE_DURATION" for c
  proof -
    have "find (\<lambda>t. tab_id t = tabId) (tabs s) \<noteq> None"
      using inv c unfolding cached_tabs_configured_def by blast
    then obtain tab where "find (\<lambda>t. tab_id t = tabId) (tabs s) = Some tab" by blast
    then show ?thesis using c fresh by (rule hit)
  qed
  have again: "newsList (fetchNews E2 P2 tabId ts (fetchNews E P tabId ts s))
              = newsList (fetchNews E P tabId ts s)
          \<and> requests (fetchNews E2 P2 tabId ts (fetchNews E P tabId ts s))
              = requests (fetchNews E P tabId ts s)"
    if tab: "find (\<lambda>t. tab_id t = tabId) ts = Some tab"
      and c1: "newsCache (fetchNews E P tabId ts s) tabId = Some c1"
      and fresh: "now_check E2 - timestamp c1 < CACHE_DURATION" for tab c1 E2 P2
  proof -
    have "newsList (fetchNews E P tabId ts s) = data c1"
      using tab c1 by (rule fetchNews_list_cached)
    then show ?thesis using hit [OF tab c1 fresh, of P2] by simp
  qed
  have "CACHE_DURATION = 5 * 60 * 1000" by (simp add: CACHE_DURATION_def)
  then show ?thesis using current hit again by blast
qed

theorem fetchNews_cache_hit_witness:
  "cached_tabs_configured ex_state_cached
   \<and> newsList (fetchNews ex_env_down ex_platform ''tab-2'' (tabs ex_state_cached) ex_state_cached)
       = [ex_article2]
   \<and> newsList (fetchNews ex_env_down ex_platform ''tab-2'' ex_tabs ex_state_cached) = [ex_article2]
   \<and> requests (fetchNews ex_env_down ex_platform ''tab-2'' ex_tabs ex_state_cached) = []
   \<and> newsList (fetchNews ex_env_down ex_platform ''tab-1'' ex_tabs
                  (fetchNews ex_env_ok ex_platform ''tab-1'' ex_tabs ex_state))
      = newsList (fetchNews ex_env_ok ex_platform ''tab-1'' ex_tabs ex_state)
   \<and> requests (fetchNews ex_env_down ex_platform ''tab-1'' ex_tabs
                  (fetchNews ex_env_ok ex_platform ''tab-1'' ex_tabs ex_state))
      = requests (fetchNews ex_env_ok ex_platform ''tab-1'' ex_tabs ex_state)
   \<and> length (newsList (fetchNews ex_env_ok ex_platform ''tab-1'' ex_tabs ex_state)) = 2"
proof -
  have tab2: "find (\<lambda>t. tab_id t = ''tab-2'') ex_tabs = Some ex_tab2"
    by (simp add: ex_tabs_def ex_tab1_def ex_tab2_def)
  have tab1: "find (\<lambda>t. tab_id t = ''tab-1'') ex_tabs = Some ex_tab1"
    by (simp add: ex_tabs_def ex_tab1_def)
  have fresh: "newsCache ex_state_cached ''tab-2'' = Some \<lparr>data = [ex_article2], timestamp = 900000\<rparr>
      \<and> now_check ex_env_down - timestamp \<lparr>data = [ex_article2], timestamp = 900000\<rparr> < CACHE_DURATION"
    by (simp add: ex_state_cached_def ex_state_def ex_env_down_def CACHE_DURATION_def)
  note hit = fetchNews_cache_hit [of ex_state_cached "''tab-2''" ex_env_down ex_platform ex_tabs]
  from hit tab2 fresh
  have one: "newsList (fetchNews ex_env_down ex_platform ''tab-2'' ex_tabs ex_state_cached)
               = data \<lparr>data = [ex_article2], timestamp = 900000\<rparr>
             \<and> requests (fetchNews ex_env_down ex_platform ''tab-2'' ex_tabs ex_state_cached)
               = requests ex_state_cached"
    by blast
  have empty: "requests ex_state_cached = []" by (simp add: ex_state_cached_def ex_state_def)
  have inv: "cached_tabs_configured ex_state_cached"
    by (auto simp: cached_tabs_configured_def ex_state_cached_def ex_state_def ex_tabs_def
        ex_tab1_def ex_tab2_def split: if_splits)
  from hit inv fresh
  have current: "newsList (fetchNews ex_env_down ex_platform ''tab-2'' (tabs ex_state_cached)
                             ex_state_cached)
                   = data \<lparr>data = [ex_article2], timestamp = 900000\<rparr>"
    by blast
  let ?s1 = "fetchNews ex_env_ok ex_platform ''tab-1'' ex_tabs ex_state"
  have "map_option length
          (mappedNews ex_platform ''tab-1'' (fetch ex_env_ok (request_url (keyword ex_tab1))))
        = Some 2"
    by code_simp
  then obtain news where news: "mappedNews ex_platform ''tab-1''
       (fetch ex_env_ok (request_url (keyword ex_tab1))) = Some news" and two: "length news = 2"
    by blast
  have miss: "\<And>c. newsCache ex_state ''tab-1'' = Some c \<Longrightarrow>
                 \<not> now_check ex_env_ok - timestamp c < CACHE_DURATION"
    by (simp add: ex_state_def)
  have s1: "?s1 = fetch_remote ex_env_ok ex_platform ''tab-1'' ex_tab1
                     (ex_state\<lparr>loading := True, error := None\<rparr>)"
    by (rule fetchNews_miss [OF tab1 miss])
  have stored: "newsCache ?s1 ''tab-1'' = Some \<lparr>data = news, timestamp = 1000200\<rparr>
      \<and> now_check ex_env_down - timestamp \<lparr>data = news, timestamp = 1000200\<rparr> < CACHE_DURATION"
  proof -
    have "newsCache ?s1 ''tab-1'' = Some \<lparr>data = news, timestamp = now_store ex_env_ok\<rparr>"
      by (simp add: s1 fetch_remote_success [OF news])
    moreover have "now_store ex_env_ok = 1000200" by (simp add: ex_env_ok_def)
    ultimately show ?thesis by (simp add: ex_env_down_def CACHE_DURATION_def)
  qed
  note again = fetchNews_cache_hit [of ex_state "''tab-1''" ex_env_ok ex_platform ex_tabs]
  from again tab1 stored
  have two_calls: "newsList (fetchNews ex_env_down ex_platform ''tab-1'' ex_tabs ?s1) = newsList ?s1
      \<and> requests (fetchNews ex_env_down ex_platform ''tab-1'' ex_tabs ?s1) = requests ?s1"
    by blast
  have "length (newsList ?s1) = 2" by (simp add: s1 fetch_remote_success [OF news] two)
  then show ?thesis using inv current one empty two_calls by simp
qed

subsection \<open>Failure leaves the cache alone\<close>

text \<open>
  C10. When the fetch of a configured tab fails, that is the \<^verbatim>\<open>try\<close> block throws (the
  request is rejected, the response is not ok, its body does not parse, its status is not
  \<^verbatim>\<open>'ok'\<close>, or the normalisation of an item throws), the cache map after \<^verbatim>\<open>fetchNews\<close>
  is the cache map before it. In every case the cache is either unchanged or differs only
  by the entry written for this tab on the success path, holding the normalised, sorted
  and truncated list and the time of the store.
\<close>

theorem fetchNews_failure_keeps_cache:
  "(\<forall>tab. find (\<lambda>t. tab_id t = tabId) ts = Some tab
          \<and> mappedNews P tabId (fetch E (request_url (keyword tab))) = None \<longrightarrow>
          newsCache (fetchNews E P tabId ts s) = newsCache s)
   \<and> (newsCache (fetchNews E P tabId ts s) = newsCache s
       \<or> (\<exists>tab news. find (\<lambda>t. tab_id t = tabId) ts = Some tab
             \<and> mappedNews P tabId (fetch E (request_url (keyword tab))) = Some news
             \<and> newsCache (fetchNews E P tabId ts s)
                 = (newsCache s)(tabId \<mapsto> \<lparr>data = news, timestamp = now_store E\<rparr>)))
   \<and> mappedNews P tabId Rejected = None
   \<and> (\<forall>b. mappedNews P tabId (Response False b) = None)
   \<and> mappedNews P tabId (Response True None) = None
   \<and> (\<forall>d. status d \<noteq> ''ok'' \<longrightarrow> mappedNews P tabId (Response True (Some d)) = None)
   \<and> (\<forall>d. normalize_items P tabId d = None \<longrightarrow>
          mappedNews P tabId (Response True (Some d)) = None)"
  using fetchNews_failure_cache [of tabId ts _ P E s] fetchNews_cache [of E P tabId ts s]
  by (simp add: mappedNews_failures)

theorem fetchNews_failure_keeps_cache_witness:
  "newsCache (fetchNews ex_env_down ex_platform ''tab-1'' ex_tabs ex_state_cached)
     = newsCache ex_state_cached
   \<and> newsCache (fetchNews ex_env_down ex_platform ''tab-1'' ex_tabs ex_state)
     = newsCache ex_state
   \<and> requests (fetchNews ex_env_down ex_platform ''tab-1'' ex_tabs ex_state_cached)
     = [request_url ''bus cuts'']"
proof -
  have tab1: "find (\<lambda>t. tab_id t = ''tab-1'') ex_tabs = Some ex_tab1"
    by (simp add: ex_tabs_def ex_tab1_def)
  have down: "mappedNews ex_platform ''tab-1'' (fetch ex_env_down (request_url (keyword ex_tab1))) = None"
    by (simp add: ex_env_down_def mappedNews_def)
  have stale: "\<And>c. newsCache ex_state_cached ''tab-1'' = Some c \<Longrightarrow>
                  \<not> now_check ex_env_down - timestamp c < CACHE_DURATION"
    by (simp add: ex_state_cached_def ex_state_def ex_env_down_def CACHE_DURATION_def)
  have entry: "newsCache ex_state_cached ''tab-1'' = Some \<lparr>data = [ex_article], timestamp = 0\<rparr>"
    by (simp add: ex_state_cached_def ex_state_def)
  have remote: "fetchNews ex_env_down ex_platform ''tab-1'' ex_tabs ex_state_cached
      = fetch_remote ex_env_down ex_platform ''tab-1'' ex_tab1
          (ex_state_cached\<lparr>loading := True, error := None\<rparr>)"
    by (rule fetchNews_miss [OF tab1 stale])
  have "requests (fetchNews ex_env_down ex_platform ''tab-1'' ex_tabs ex_state_cached)
          = requests ex_state_cached @ [request_url (keyword ex_tab1)]"
    by (simp add: remote fetch_remote_fallback [OF down] entry)
  then have "requests (fetchNews ex_env_down ex_platform ''tab-1'' ex_tabs ex_state_cached)
          = [request_url ''bus cuts'']"
    by (simp add: ex_state_cached_def ex_state_def ex_tab1_def)
  then show ?thesis
    using fetchNews_failure_keeps_cache [of "''tab-1''" ex_tabs ex_platform ex_env_down ex_state_cached]
      fetchNews_failure_keeps_cache [of "''tab-1''" ex_tabs ex_platform ex_env_down ex_state]
      tab1 down
    by blast
qed

subsection \<open>Failure fallback and what is displayed\<close>

text \<open>
  C3, as the code behaves. When the fetch of a configured tab goes to the network and
  fails: if the cache holds an entry for the tab (however old), \<^verbatim>\<open>fetchNews\<close> stores the
  entry's list in \<^verbatim>\<open>newsList\<close> and sets the stale-data message, but the page renders
  the error panel with that message and not the list; if the cache holds no entry, the
  list is left as it was, the failure message is set and the page renders the error panel.
\<close>

theorem fetchNews_failure_render:
  assumes tab: "find (\<lambda>t. tab_id t = tabId) ts = Some tab"
    and miss: "\<forall>c. newsCache s tabId = Some c \<longrightarrow> \<not> now_check E - timestamp c < CACHE_DURATION"
    and fail: "mappedNews P tabId (fetch E (request_url (keyword tab))) = None"
  shows "(\<forall>c. newsCache s tabId = Some c \<longrightarrow>
            newsList (fetchNews E P tabId ts s) = data c
          \<and> error (fetchNews E P tabId ts s) = Some STALE_MESSAGE
          \<and> render (fetchNews E P tabId ts s) = ErrorPanel STALE_MESSAGE)
     \<and> (newsCache s tabId = None \<longrightarrow>
            newsList (fetchNews E P tabId ts s) = newsList s
          \<and> error (fetchNews E P tabId ts s) = Some FAILED_MESSAGE
          \<and> render (fetchNews E P tabId ts s) = ErrorPanel FAILED_MESSAGE)"
proof -
  have remote: "fetchNews E P tabId ts s
                = fetch_remote E P tabId tab (s\<lparr>loading := True, error := None\<rparr>)"
    using tab miss by (intro fetchNews_miss) auto
  show ?thesis
  proof (intro conjI allI impI)
    fix c assume c: "newsCache s tabId = Some c"
    have st: "fetchNews E P tabId ts s =
        (s\<lparr>loading := True, error := None\<rparr>)
        \<lparr>requests := requests (s\<lparr>loading := True, error := None\<rparr>) @ [request_url (keyword tab)],
         newsList := data c, error := Some STALE_MESSAGE, loading := False\<rparr>"
      unfolding remote by (rule fetch_remote_fallback [OF fail]) (simp add: c)
    show "newsList (fetchNews E P tabId ts s) = data c" by (simp add: st)
    show "error (fetchNews E P tabId ts s) = Some STALE_MESSAGE" by (simp add: st)
    show "render (fetchNews E P tabId ts s) = ErrorPanel STALE_MESSAGE"
      by (simp add: st render_def messages_nonempty)
  next
    assume n: "newsCache s tabId = None"
    have st: "fetchNews E P tabId ts s =
        (s\<lparr>loading := True, error := None\<rparr>)
        \<lparr>requests := requests (s\<lparr>loading := True, error := None\<rparr>) @ [request_url (keyword tab)],
         error := Some FAILED_MESSAGE, loading := False\<rparr>"
      unfolding remote by (rule fetch_remote_no_data [OF fail]) (simp add: n)
    show "newsList (fetchNews E P tabId ts s) = newsList s" by (simp add: st)
    show "error (fetchNews E P tabId ts s) = Some FAILED_MESSAGE" by (simp add: st)
    show "render (fetchNews E P tabId ts s) = ErrorPanel FAILED_MESSAGE"
      by (simp add: st render_def messages_nonempty)
  qed
qed

theorem fetchNews_failure_render_witness:
  "newsCache ex_state_cached ''tab-1'' = Some \<lparr>data = [ex_article], timestamp = 0\<rparr>
   \<and> newsList (fetchNews ex_env_down ex_platform ''tab-1'' ex_tabs ex_state_cached) = [ex_article]
   \<and> render (fetchNews ex_env_down ex_platform ''tab-1'' ex_tabs ex_state_cached)
       = ErrorPanel STALE_MESSAGE
   \<and> render (fetchNews ex_env_down ex_platform ''tab-1'' ex_tabs ex_state_cached)
       \<noteq> ArticleGrid [ex_article]
   \<and> newsCache ex_state ''tab-1'' = None
   \<and> render (fetchNews ex_env_down ex_platform ''tab-1'' ex_tabs ex_state)
       = ErrorPanel FAILED_MESSAGE"
proof -
  have tab1: "find (\<lambda>t. tab_id t = ''tab-1'') ex_tabs = Some ex_tab1"
    by (simp add: ex_tabs_def ex_tab1_def)
  have down: "mappedNews ex_platform ''tab-1'' (fetch ex_env_down (request_url (keyword ex_tab1))) = None"
    by (simp add: ex_env_down_def mappedNews_def)
  have stale: "\<forall>c. newsCache ex_state_cached ''tab-1'' = Some c \<longrightarrow>
                  \<not> now_check ex_env_down - timestamp c < CACHE_DURATION"
    by (simp add: ex_state_cached_def ex_state_def ex_env_down_def CACHE_DURATION_def)
  have none: "\<forall>c. newsCache ex_state ''tab-1'' = Some c \<longrightarrow>
                  \<not> now_check ex_env_down - timestamp c < CACHE_DURATION"
    by (simp add: ex_state_def)
  have entry: "newsCache ex_state_cached ''tab-1'' = Some \<lparr>data = [ex_article], timestamp = 0\<rparr>"
    by (simp add: ex_state_cached_def ex_state_def)
  have empty: "newsCache ex_state ''tab-1'' = None" by (simp add: ex_state_def)
  from fetchNews_failure_render [OF tab1 stale down] entry
  have soft: "newsList (fetchNews ex_env_down ex_platform ''tab-1'' ex_tabs ex_state_cached)
                = data \<lparr>data = [ex_article], timestamp = 0\<rparr>
      \<and> render (fetchNews ex_env_down ex_platform ''tab-1'' ex_tabs ex_state_cached)
           = ErrorPanel STALE_MESSAGE"
    by blast
  from fetchNews_failure_render [OF tab1 none down] empty
  have hard: "render (fetchNews ex_env_down ex_platform ''tab-1'' ex_tabs ex_state)
                = ErrorPanel FAILED_MESSAGE"
    by blast
  show ?thesis using soft hard entry empty by simp
qed

section \<open>Saving the settings\<close>










section \<open>Read and hidden sets under the user's actions\<close>

lemma dispatch_readIds: "readIds s \<subseteq> readIds (dispatch E P a s)"
  by (cases a)
     (auto simp: resetHiddenSources_def forceRefresh_def markAsRead_def hideSource_def
        unhideSource_def handleSaveSettings_def fetchNews_frame)

lemma dispatch_hiddenSources:
  "hiddenSources (dispatch E P a s) =
     (case a of
        HideSource x \<Rightarrow> insert (source x) (hiddenSources s)
      | UnhideSource x \<Rightarrow> hiddenSources s - {source x}
      | ResetHidden \<Rightarrow> {}
      | _ \<Rightarrow> hiddenSources s)"
  by (cases a)
     (auto simp: resetHiddenSources_def forceRefresh_def markAsRead_def hideSource_def
        unhideSource_def handleSaveSettings_def fetchNews_frame)

text \<open>
  C9, as amended. Under every user action the set of read ids keeps all its elements (it
  grows by the clicked article's id and no action removes from it or clears it). The set
  of hidden sources grows by one name when a source is hidden, loses exactly that one
  name when a source is shown again (\<^verbatim>\<open>unhideSource\<close>), becomes empty on a reset, and is
  left as it is by every other action.
\<close>

theorem read_and_hidden_sets:
  "readIds s \<subseteq> readIds (dispatch E P a s)
   \<and> readIds (markAsRead i s) = insert i (readIds s)
   \<and> hiddenSources (hideSource x s) = insert x (hiddenSources s)
   \<and> hiddenSources (unhideSource x s) = hiddenSources s - {x}
   \<and> hiddenSources (resetHiddenSources s) = {}
   \<and> hiddenSources (dispatch E P a s) =
       (case a of
          HideSource x \<Rightarrow> insert (source x) (hiddenSources s)
        | UnhideSource x \<Rightarrow> hiddenSources s - {source x}
        | ResetHidden \<Rightarrow> {}
        | _ \<Rightarrow> hiddenSources s)"
  using dispatch_readIds [of s E P a] dispatch_hiddenSources [of E P a s]
  by (simp add: markAsRead_def hideSource_def unhideSource_def resetHiddenSources_def)

theorem read_and_hidden_sets_witness:
  "readIds ex_state_cached \<subseteq> readIds (dispatch ex_env_ok ex_platform (ArticleClick ex_article2)
                                         (dispatch ex_env_ok ex_platform ResetHidden ex_state_cached))
   \<and> hiddenSources (dispatch ex_env_ok ex_platform (HideSource ex_article) ex_state)
       = {''Example Times''}
   \<and> hiddenSources (dispatch ex_env_ok ex_platform ResetHidden ex_state_cached) = {}"
proof -
  let ?s = "dispatch ex_env_ok ex_platform ResetHidden ex_state_cached"
  have "readIds ex_state_cached \<subseteq> readIds ?s"
    using read_and_hidden_sets [of ex_state_cached ex_env_ok ex_platform ResetHidden] by blast
  moreover have "readIds ?s \<subseteq> readIds (dispatch ex_env_ok ex_platform (ArticleClick ex_article2) ?s)"
    using read_and_hidden_sets [of ?s ex_env_ok ex_platform "ArticleClick ex_article2"] by blast
  moreover have "hiddenSources (dispatch ex_env_ok ex_platform (HideSource ex_article) ex_state)
       = {''Example Times''}"
    using read_and_hidden_sets [of ex_state ex_env_ok ex_platform "HideSource ex_article"]
    by (simp add: ex_state_def ex_article_def)
  moreover have "hiddenSources ?s = {}"
    using read_and_hidden_sets [of ex_state_cached ex_env_ok ex_platform ResetHidden] by simp
  ultimately show ?thesis by blast
qed

theorem unhideSource_removes_counterexample:
  "hiddenSources ex_state_cached = {''Example Times'', ''Gadget Daily''}
   \<and> hiddenSources (dispatch ex_env_ok ex_platform (UnhideSource ex_article) ex_state_cached)
       = {''Gadget Daily''}
   \<and> \<not> hiddenSources ex_state_cached
         \<subseteq> hiddenSources (dispatch ex_env_ok ex_platform (UnhideSource ex_article) ex_state_cached)"
  by (auto simp: unhideSource_def ex_state_cached_def ex_state_def ex_article_def)

section \<open>Bounds on the tab list\<close>

lemma handleDeleteTab_removes:
  "map snd (filter (\<lambda>(i, t). i \<noteq> index) (enumerate n xs))
     = take (index - n) xs @ (if n \<le> index then drop (Suc (index - n)) xs else xs)"
proof (induction xs arbitrary: n)
  case Nil
  then show ?case by simp
next
  case (Cons x xs)
  show ?case
  proof (cases "n = index")
    case True
    have "filter (\<lambda>(i, t). i \<noteq> index) (enumerate (Suc index) xs) = enumerate (Suc index) xs"
      by (rule filter_True) (auto simp: in_set_enumerate_eq)
    then show ?thesis using True by simp
  next
    case False
    show ?thesis
    proof (cases "n < index")
      case True
      then have "index - n = Suc (index - Suc n)" by simp
      then show ?thesis using True False Cons.IH [of "Suc n"] by simp
    next
      case False
      then have gt: "index < n" using \<open>n \<noteq> index\<close> by simp
      then show ?thesis using Cons.IH [of "Suc n"] by simp
    qed
  qed
qed

text \<open>
  C7, as amended. \<^verbatim>\<open>handleAddTab\<close> fails, adding nothing, when the number of tabs is at or
  over the configured maximum, and otherwise appends one tab. \<^verbatim>\<open>handleDeleteTab\<close> fails,
  removing nothing, when at most one tab remains, and otherwise removes the tab at the
  index. Setting the maximum does not clamp: a value from 1 to 20 is stored as it is, and
  a value outside that range, like an input that is not a number, is ignored, the
  maximum keeping its previous value; so a maximum within 1 to 20 stays within it.
\<close>

theorem tab_bounds:
  "(editingMaxTabs m \<le> int (length (editingTabs m)) \<longrightarrow>
      handleAddTab now m = Inl CapacityExceeded)
   \<and> (int (length (editingTabs m)) < editingMaxTabs m \<longrightarrow>
        (\<exists>t. handleAddTab now m = Inr (m\<lparr>editingTabs := editingTabs m @ [t]\<rparr>)))
   \<and> (length (editingTabs m) \<le> 1 \<longrightarrow> handleDeleteTab index m = Inl MinimumViolation)
   \<and> (1 < length (editingTabs m) \<longrightarrow>
        handleDeleteTab index m =
          Inr (m\<lparr>editingTabs := take index (editingTabs m) @ drop (Suc index) (editingTabs m)\<rparr>))
   \<and> onChangeMaxTabs val m =
        (case val of
           None \<Rightarrow> m
         | Some v \<Rightarrow> if 1 \<le> v \<and> v \<le> 20 then m\<lparr>editingMaxTabs := v\<rparr> else m)
   \<and> (1 \<le> editingMaxTabs m \<and> editingMaxTabs m \<le> 20 \<longrightarrow>
        1 \<le> editingMaxTabs (onChangeMaxTabs val m) \<and> editingMaxTabs (onChangeMaxTabs val m) \<le> 20)"
proof (intro conjI impI)
  assume "editingMaxTabs m \<le> int (length (editingTabs m))"
  then show "handleAddTab now m = Inl CapacityExceeded" by (simp add: handleAddTab_def)
next
  assume "int (length (editingTabs m)) < editingMaxTabs m"
  then have "handleAddTab now m =
      Inr (m\<lparr>editingTabs := editingTabs m @
             [\<lparr>tab_id = ''tab-'' @ Number_toString now, label = NEW_TAB_LABEL,
               icon = ''fa-hashtag'', keyword = NEW_TAB_KEYWORD\<rparr>]\<rparr>)"
    by (simp add: handleAddTab_def)
  then show "\<exists>t. handleAddTab now m = Inr (m\<lparr>editingTabs := editingTabs m @ [t]\<rparr>)"
    by (rule exI)
next
  assume "length (editingTabs m) \<le> 1"
  then show "handleDeleteTab index m = Inl MinimumViolation" by (simp add: handleDeleteTab_def)
next
  assume "1 < length (editingTabs m)"
  then show "handleDeleteTab index m =
          Inr (m\<lparr>editingTabs := take index (editingTabs m) @ drop (Suc index) (editingTabs m)\<rparr>)"
    using handleDeleteTab_removes [of index 0 "editingTabs m"] by (simp add: handleDeleteTab_def)
next
  show "onChangeMaxTabs val m =
        (case val of
           None \<Rightarrow> m
         | Some v \<Rightarrow> if 1 \<le> v \<and> v \<le> 20 then m\<lparr>editingMaxTabs := v\<rparr> else m)"
    by (simp add: onChangeMaxTabs_def)
next
  assume "1 \<le> editingMaxTabs m \<and> editingMaxTabs m \<le> 20"
  then show "1 \<le> editingMaxTabs (onChangeMaxTabs val m)"
    by (simp add: onChangeMaxTabs_def split: option.splits)
next
  assume "1 \<le> editingMaxTabs m \<and> editingMaxTabs m \<le> 20"
  then show "editingMaxTabs (onChangeMaxTabs val m) \<le> 20"
    by (simp add: onChangeMaxTabs_def split: option.splits)
qed

theorem tab_bounds_witness:
  "handleAddTab 1700000000000 ex_modal_full = Inl CapacityExceeded
   \<and> (\<exists>t. handleAddTab 1700000000000 ex_modal = Inr (ex_modal\<lparr>editingTabs := ex_tabs @ [t]\<rparr>))
   \<and> handleDeleteTab 0 ex_modal_single = Inl MinimumViolation
   \<and> handleDeleteTab 0 ex_modal = Inr (ex_modal\<lparr>editingTabs := [ex_tab2]\<rparr>)
   \<and> editingMaxTabs (onChangeMaxTabs (Some 12) ex_modal) = 12
   \<and> editingMaxTabs (onChangeMaxTabs (Some 25) ex_modal) = 7"
proof -
  have full: "editingMaxTabs ex_modal_full \<le> int (length (editingTabs ex_modal_full))"
    by (simp add: ex_modal_full_def ex_tabs_def)
  have room: "int (length (editingTabs ex_modal)) < editingMaxTabs ex_modal"
    by (simp add: ex_modal_def ex_tabs_def)
  have single: "length (editingTabs ex_modal_single) \<le> 1" by (simp add: ex_modal_single_def)
  have two: "1 < length (editingTabs ex_modal)" by (simp add: ex_modal_def ex_tabs_def)
  have tabs: "editingTabs ex_modal = ex_tabs" by (simp add: ex_modal_def)
  have range: "1 \<le> editingMaxTabs ex_modal \<and> editingMaxTabs ex_modal \<le> 20"
    by (simp add: ex_modal_def)
  note a = tab_bounds [of ex_modal_full 1700000000000 0 "Some 12"]
  note b = tab_bounds [of ex_modal 1700000000000 0 "Some 12"]
  note c = tab_bounds [of ex_modal_single 1700000000000 0 "Some 12"]
  note d = tab_bounds [of ex_modal 1700000000000 0 "Some 25"]
  have "handleAddTab 1700000000000 ex_modal_full = Inl CapacityExceeded" using a full by blast
  moreover have "\<exists>t. handleAddTab 1700000000000 ex_modal = Inr (ex_modal\<lparr>editingTabs := ex_tabs @ [t]\<rparr>)"
    using b room tabs by simp
  moreover have "handleDeleteTab 0 ex_modal_single = Inl MinimumViolation" using c single by blast
  moreover have "handleDeleteTab 0 ex_modal
                  = Inr (ex_modal\<lparr>editingTabs := take 0 (editingTabs ex_modal)
                                                  @ drop (Suc 0) (editingTabs ex_modal)\<rparr>)"
    using b two by blast
  then have "handleDeleteTab 0 ex_modal = Inr (ex_modal\<lparr>editingTabs := [ex_tab2]\<rparr>)"
    by (simp add: tabs ex_tabs_def)
  moreover have "editingMaxTabs (onChangeMaxTabs (Some 12) ex_modal) = 12"
    using b by simp
  moreover have "editingMaxTabs (onChangeMaxTabs (Some 25) ex_modal) = 7"
    using d by (simp add: ex_modal_def)
  ultimately show ?thesis by blast
qed

theorem onChangeMaxTabs_no_clamp_counterexample:
  "editingMaxTabs ex_modal = 7
   \<and> editingMaxTabs (onChangeMaxTabs (Some 25) ex_modal) = 7
   \<and> editingMaxTabs (onChangeMaxTabs (Some 25) ex_modal) \<noteq> max 1 (min 20 25)
   \<and> editingMaxTabs (onChangeMaxTabs (Some 0) ex_modal) = 7
   \<and> editingMaxTabs (onChangeMaxTabs (Some 0) ex_modal) \<noteq> max 1 (min 20 0)"
  by (simp add: onChangeMaxTabs_def ex_modal_def)

section \<open>The image chain\<close>

lemma placeholder_nonempty: "placeholder t \<noteq> []"
  by (simp add: placeholder_def)

lemma imageUrl_of_nonempty: "imageUrl_of P item \<noteq> []"
  by (auto simp: imageUrl_of_def Let_def truthy_def placeholder_nonempty
      split: option.splits if_splits)

text \<open>
  C4. The image address of an item is, in this order: its thumbnail, if that is a
  non-empty string; else its enclosure link, if non-empty; else the \<^verbatim>\<open>src\<close> of the first
  \<^verbatim>\<open>img\<close> element of the parsed description, if there is one and it is non-empty; else
  the same for the content; else the placeholder address, which is
  \<^verbatim>\<open>https://picsum.photos/seed/<title, URL-encoded>/800/450\<close> and so depends on the title
  only. An item with no thumbnail, enclosure and description whose (non-empty) content
  parses to a first \<^verbatim>\<open>img\<close> with the non-empty \<^verbatim>\<open>src\<close> \<open>x\<close> gets \<open>x\<close>. The address is never empty,
  and it is the \<^verbatim>\<open>imageUrl\<close> of the normalised article.
\<close>

theorem imageUrl_chain:
  "(\<forall>u. item_thumbnail item = Some u \<and> u \<noteq> [] \<longrightarrow> imageUrl_of P item = u)
   \<and> (\<forall>u. \<not> truthy (item_thumbnail item) \<and> item_enclosure_link item = Some u \<and> u \<noteq> [] \<longrightarrow>
          imageUrl_of P item = u)
   \<and> (\<forall>u. \<not> truthy (item_thumbnail item) \<and> \<not> truthy (item_enclosure_link item)
          \<and> Option.bind (item_description item) (extractImageFromHtml P) = Some u \<and> u \<noteq> [] \<longrightarrow>
          imageUrl_of P item = u)
   \<and> (\<forall>u. \<not> truthy (item_thumbnail item) \<and> \<not> truthy (item_enclosure_link item)
          \<and> \<not> truthy (Option.bind (item_description item) (extractImageFromHtml P))
          \<and> Option.bind (item_content item) (extractImageFromHtml P) = Some u \<and> u \<noteq> [] \<longrightarrow>
          imageUrl_of P item = u)
   \<and> (\<not> truthy (item_thumbnail item) \<and> \<not> truthy (item_enclosure_link item)
        \<and> \<not> truthy (Option.bind (item_description item) (extractImageFromHtml P))
        \<and> \<not> truthy (Option.bind (item_content item) (extractImageFromHtml P)) \<longrightarrow>
        imageUrl_of P item = placeholder (item_title item))
   \<and> (\<forall>h. extractImageFromHtml P h =
          (if h = [] then None else case first_img P h of None \<Rightarrow> None | Some src \<Rightarrow> src))
   \<and> (\<forall>c x. item_thumbnail item = None \<and> item_enclosure_link item = None
          \<and> item_description item = None \<and> item_content item = Some c \<and> c \<noteq> []
          \<and> first_img P c = Some (Some x) \<and> x \<noteq> [] \<longrightarrow>
          imageUrl_of P item = x)
   \<and> placeholder (item_title item)
       = ''https://picsum.photos/seed/'' @ encodeURIComponent (item_title item) @ ''/800/450''
   \<and> imageUrl_of P item \<noteq> []
   \<and> (\<forall>a. normalize_item P tabId ft i item = Some a \<longrightarrow>
          imageUrl a = imageUrl_of P item \<and> imageUrl a \<noteq> [])"
proof (intro conjI allI impI)
  fix u assume "item_thumbnail item = Some u \<and> u \<noteq> []"
  then show "imageUrl_of P item = u"
    by (simp add: imageUrl_of_def Let_def truthy_def split: option.splits)
next
  fix u assume "\<not> truthy (item_thumbnail item) \<and> item_enclosure_link item = Some u \<and> u \<noteq> []"
  then show "imageUrl_of P item = u"
    by (simp add: imageUrl_of_def Let_def truthy_def split: option.splits)
next
  fix u assume "\<not> truthy (item_thumbnail item) \<and> \<not> truthy (item_enclosure_link item)
          \<and> Option.bind (item_description item) (extractImageFromHtml P) = Some u \<and> u \<noteq> []"
  then show "imageUrl_of P item = u"
    by (cases "item_description item")
       (auto simp: imageUrl_of_def Let_def truthy_def extractImageFromHtml_def
          split: option.splits if_splits)
next
  fix u assume "\<not> truthy (item_thumbnail item) \<and> \<not> truthy (item_enclosure_link item)
          \<and> \<not> truthy (Option.bind (item_description item) (extractImageFromHtml P))
          \<and> Option.bind (item_content item) (extractImageFromHtml P) = Some u \<and> u \<noteq> []"
  then show "imageUrl_of P item = u"
    by (cases "item_description item"; cases "item_content item")
       (auto simp: imageUrl_of_def Let_def truthy_def extractImageFromHtml_def
          split: option.splits if_splits)
next
  assume "\<not> truthy (item_thumbnail item) \<and> \<not> truthy (item_enclosure_link item)
        \<and> \<not> truthy (Option.bind (item_description item) (extractImageFromHtml P))
        \<and> \<not> truthy (Option.bind (item_content item) (extractImageFromHtml P))"
  then show "imageUrl_of P item = placeholder (item_title item)"
    by (cases "item_description item"; cases "item_content item")
       (auto simp: imageUrl_of_def Let_def truthy_def extractImageFromHtml_def
          split: option.splits if_splits)
next
  fix h
  show "extractImageFromHtml P h =
          (if h = [] then None else case first_img P h of None \<Rightarrow> None | Some src \<Rightarrow> src)"
    by (simp add: extractImageFromHtml_def)
next
  fix c x
  assume "item_thumbnail item = None \<and> item_enclosure_link item = None
          \<and> item_description item = None \<and> item_content item = Some c \<and> c \<noteq> []
          \<and> first_img P c = Some (Some x) \<and> x \<noteq> []"
  then show "imageUrl_of P item = x"
    by (simp add: imageUrl_of_def Let_def truthy_def extractImageFromHtml_def)
next
  show "placeholder (item_title item)
       = ''https://picsum.photos/seed/'' @ encodeURIComponent (item_title item) @ ''/800/450''"
    by (simp add: placeholder_def)
next
  show "imageUrl_of P item \<noteq> []" by (rule imageUrl_of_nonempty)
next
  fix a assume "normalize_item P tabId ft i item = Some a"
  then show "imageUrl a = imageUrl_of P item"
    by (auto simp: normalize_item_def split: option.splits)
next
  fix a assume "normalize_item P tabId ft i item = Some a"
  then have "imageUrl a = imageUrl_of P item"
    by (auto simp: normalize_item_def split: option.splits)
  then show "imageUrl a \<noteq> []" by (simp add: imageUrl_of_nonempty)
qed

theorem imageUrl_chain_witness:
  "item_content ex_item1 = Some IMG_X
   \<and> first_img ex_platform IMG_X = Some (Some ''X'')
   \<and> imageUrl_of ex_platform ex_item1 = ''X''
   \<and> imageUrl_of ex_platform ex_item2 = ''https://example.org/t.png''
   \<and> imageUrl_of ex_platform ex_item3 = ''https://picsum.photos/seed/A%20-%20-%20B/800/450''
   \<and> map_option imageUrl (normalize_item ex_platform ''tab-1'' None 0 ex_item1) = Some ''X''"
proof -
  have only_content: "item_thumbnail ex_item1 = None \<and> item_enclosure_link ex_item1 = None
      \<and> item_description ex_item1 = None \<and> item_content ex_item1 = Some IMG_X \<and> IMG_X \<noteq> []
      \<and> first_img ex_platform IMG_X = Some (Some ''X'') \<and> ''X'' \<noteq> []"
    by (simp add: ex_item1_def ex_platform_def IMG_X_def)
  have thumb: "item_thumbnail ex_item2 = Some ''https://example.org/t.png''
      \<and> ''https://example.org/t.png'' \<noteq> []"
    by (simp add: ex_item2_def)
  have no_source: "\<not> truthy (item_thumbnail ex_item3) \<and> \<not> truthy (item_enclosure_link ex_item3)
      \<and> \<not> truthy (Option.bind (item_description ex_item3) (extractImageFromHtml ex_platform))
      \<and> \<not> truthy (Option.bind (item_content ex_item3) (extractImageFromHtml ex_platform))"
    by (simp add: ex_item3_def truthy_def)
  have norm: "normalize_item ex_platform ''tab-1'' None 0 ex_item1 \<noteq> None"
    by (simp add: normalize_item_def ex_platform_def ex_item1_def)
  then obtain a where a: "normalize_item ex_platform ''tab-1'' None 0 ex_item1 = Some a" by blast
  note c1 = imageUrl_chain [of ex_item1 ex_platform "''tab-1''" None 0]
  note c2 = imageUrl_chain [of ex_item2 ex_platform "''tab-1''" None 0]
  note c3 = imageUrl_chain [of ex_item3 ex_platform "''tab-1''" None 0]
  have i1: "imageUrl_of ex_platform ex_item1 = ''X''"
    by (rule c1 [THEN conjunct2, THEN conjunct2, THEN conjunct2, THEN conjunct2, THEN conjunct2, THEN conjunct2, THEN conjunct1, THEN spec, THEN spec, THEN mp, OF only_content])
  have i2: "imageUrl_of ex_platform ex_item2 = ''https://example.org/t.png''"
    by (rule c2 [THEN conjunct1, THEN spec, THEN mp, OF thumb])
  have "imageUrl_of ex_platform ex_item3 = placeholder (item_title ex_item3)"
    by (rule c3 [THEN conjunct2, THEN conjunct2, THEN conjunct2, THEN conjunct2, THEN conjunct1, THEN mp, OF no_source])
  moreover have "placeholder (item_title ex_item3)
                  = ''https://picsum.photos/seed/A%20-%20-%20B/800/450''"
    by (simp add: placeholder_def ex_item3_def encodeURIComponent_def uri_unreserved_def
        percent_encode_def hex_digit_def)
  ultimately have i3: "imageUrl_of ex_platform ex_item3
                         = ''https://picsum.photos/seed/A%20-%20-%20B/800/450''"
    by simp
  have "imageUrl a = imageUrl_of ex_platform ex_item1"
    by (rule c1 [THEN conjunct2, THEN conjunct2, THEN conjunct2, THEN conjunct2, THEN conjunct2, THEN conjunct2, THEN conjunct2, THEN conjunct2, THEN conjunct2, THEN spec, THEN mp, OF a, THEN conjunct1])
  then have "map_option imageUrl (normalize_item ex_platform ''tab-1'' None 0 ex_item1) = Some ''X''"
    by (simp add: a i1)
  then show ?thesis using only_content i1 i2 i3 by simp
qed

end
